theory Spec2Isabelle
  imports Main "HOL-Library.Word" "HOL-Library.AList" "HOL-Library.Multiset"
begin

unbundle bit_operations_syntax

section \<open>Basic types (types.hpp)\<close>

text \<open>
  \<^verbatim>\<open>Bytes\<close> is \<^verbatim>\<open>std::vector<uint8_t>\<close>; \<^verbatim>\<open>Hash256\<close>, public keys and signatures are
  \<^verbatim>\<open>std::array<uint8_t, N>\<close> and are kept as byte lists too (of length 32, 32 and 64 in
  every value the C++ types admit). All counters are \<^verbatim>\<open>uint64_t\<close> and wrap around.
\<close>

type_synonym byte = "8 word"
type_synonym u64 = "64 word"
type_synonym bytes = "byte list"
type_synonym hash256 = "bytes"

datatype addr_type = Base | Enterprise | Script

fun type_byte :: "addr_type \<Rightarrow> byte" where
  "type_byte Base = 0x00"
| "type_byte Enterprise = 0x01"
| "type_byte Script = 0x02"

record address =
  addr_kind :: addr_type
  payment_credential :: bytes
  stake_credential :: "bytes option"
  is_mainnet :: bool

record transaction =
  tx_from :: address
  tx_to :: address
  tx_value :: u64
  tx_nonce :: u64
  tx_data :: bytes
  tx_gas_limit :: u64
  max_fee_per_gas :: u64
  max_priority_fee_per_gas :: u64
  sender_pubkey :: bytes
  signature :: bytes

text \<open>\<^verbatim>\<open>Address{}\<close>: an enterprise address with an all-zero credential.\<close>

definition default_address :: address where
  "default_address =
     \<lparr>addr_kind = Enterprise, payment_credential = replicate 28 0,
      stake_credential = None, is_mainnet = True\<rparr>"

text \<open>The loop \<^verbatim>\<open>for (int i = 7; i >= 0; --i) push_back((v >> (i * 8)) & 0xFF)\<close>.\<close>

definition append_uint64 :: "u64 \<Rightarrow> bytes" where
  "append_uint64 v = map (\<lambda>i. ucast (drop_bit (i * 8) v AND 0xFF)) [7, 6, 5, 4, 3, 2, 1, 0]"

text \<open>
  \<^verbatim>\<open>Address::to_hex\<close>: two lower-case hexadecimal digits for the type, for every byte of the
  payment credential and, when present, of the stake credential. The characters are kept
  as their ASCII codes, since the string is only ever copied into byte vectors or used as
  a map key.
\<close>

definition hex_digit :: "byte \<Rightarrow> byte" where
  "hex_digit d = (if d < 10 then 0x30 + d else 0x57 + d)"

definition hex2 :: "byte \<Rightarrow> bytes" where
  "hex2 b = [hex_digit (drop_bit 4 b), hex_digit (b AND 0x0F)]"

definition to_hex :: "address \<Rightarrow> bytes" where
  "to_hex a =
     hex2 (type_byte (addr_kind a)) @ concat (map hex2 (payment_credential a)) @
     (case stake_credential a of None \<Rightarrow> [] | Some sc \<Rightarrow> concat (map hex2 sc))"

text \<open>
  \<^verbatim>\<open>Transaction::hash\<close>. The digest function \<^verbatim>\<open>crypto::Blake2b256::hash\<close> is declared in
  crypto.hpp only; it is the parameter \<open>blake\<close> of every definition that hashes.
\<close>

definition hash_preimage :: "transaction \<Rightarrow> bytes" where
  "hash_preimage tx =
     to_hex (tx_from tx) @ to_hex (tx_to tx) @
     append_uint64 (tx_value tx) @ append_uint64 (tx_nonce tx) @
     append_uint64 (tx_gas_limit tx) @ append_uint64 (max_fee_per_gas tx) @
     append_uint64 (max_priority_fee_per_gas tx) @
     tx_data tx @ sender_pubkey tx"

definition hash :: "(bytes \<Rightarrow> hash256) \<Rightarrow> transaction \<Rightarrow> hash256" where
  "hash blake tx = blake (hash_preimage tx)"

definition effective_gas_price :: "transaction \<Rightarrow> u64 \<Rightarrow> u64" where
  "effective_gas_price tx base_fee =
     (let priority_fee = max_priority_fee_per_gas tx;
          max_effective = max_fee_per_gas tx
      in if base_fee + priority_fee > max_effective then max_effective
         else base_fee + priority_fee)"

text \<open>
  \<^verbatim>\<open>Transaction::verify_signature\<close>. The scan over the signature stops at the first byte
  that is not 0xFF. \<^verbatim>\<open>crypto::Ed25519::verify(msg, len, sig, pk)\<close> is declared in crypto.hpp
  only and is the parameter \<open>ed_verify\<close>.
\<close>

fun all_ff :: "bytes \<Rightarrow> bool" where
  "all_ff [] = True"
| "all_ff (b # bs) = (if b \<noteq> 0xFF then False else all_ff bs)"

definition verify_signature ::
  "(bytes \<Rightarrow> hash256) \<Rightarrow> (bytes \<Rightarrow> bytes \<Rightarrow> bytes \<Rightarrow> bool) \<Rightarrow> transaction \<Rightarrow> bool" where
  "verify_signature blake ed_verify tx =
     (let tx_hash = hash blake tx
      in if all_ff (signature tx) then True
         else ed_verify tx_hash (signature tx) (sender_pubkey tx))"

section \<open>Account state (types.cpp)\<close>

record account_state =
  nonce :: u64
  balance :: u64
  storage_root :: hash256
  code_hash :: hash256

definition empty_hash :: hash256 where
  "empty_hash = replicate 32 0"

text \<open>\<^verbatim>\<open>AccountState{}\<close>: every member has a zero initialiser.\<close>

definition empty_account :: account_state where
  "empty_account = \<lparr>nonce = 0, balance = 0, storage_root = empty_hash, code_hash = empty_hash\<rparr>"

definition encode :: "account_state \<Rightarrow> bytes" where
  "encode st =
     append_uint64 (nonce st) @ append_uint64 (balance st) @ storage_root st @ code_hash st"

text \<open>
  The lambda \<^verbatim>\<open>read_uint64\<close> of \<^verbatim>\<open>AccountState::decode\<close>: at most eight bytes, as many as
  the data still has, folded with \<^verbatim>\<open>v = (v << 8) | data[offset]\<close>.
\<close>

definition read_uint64 :: "bytes \<Rightarrow> u64" where
  "read_uint64 bs = foldl (\<lambda>v b. push_bit 8 v OR ucast b) 0 (take 8 bs)"

definition decode :: "bytes \<Rightarrow> account_state" where
  "decode data =
     (if length data < 80 then empty_account
      else
        let n = read_uint64 data;
            offset = min 8 (length data);
            b = read_uint64 (drop offset data);
            offset = offset + min 8 (length data - offset);
            sr = (if offset + 32 \<le> length data then take 32 (drop offset data) else empty_hash);
            offset' = (if offset + 32 \<le> length data then offset + 32 else offset);
            ch = (if offset' + 32 \<le> length data then take 32 (drop offset' data) else empty_hash)
        in \<lparr>nonce = n, balance = b, storage_root = sr, code_hash = ch\<rparr>)"

text \<open>The two digests of an account state are 32-byte arrays.\<close>

definition wf_account :: "account_state \<Rightarrow> bool" where
  "wf_account st \<longleftrightarrow> length (storage_root st) = 32 \<and> length (code_hash st) = 32"

section \<open>Database, state trie and state manager (storage.hpp and its implementation)\<close>

text \<open>
  \<^verbatim>\<open>MemoryDatabase::data_\<close> is a \<^verbatim>\<open>std::map<Bytes, Bytes>\<close>. The state manager and its trie
  hold the same \<^verbatim>\<open>shared_ptr<Database>\<close>, so the model has one \<open>db\<close> field for both.
  \<^verbatim>\<open>StateTrie::dirty_nodes_\<close> is an unordered map from the hashed key to the value; it is an
  association list with distinct keys, and its list order stands for the iteration order
  of the unordered map, which C++ leaves unspecified.
\<close>

type_synonym database = "bytes \<rightharpoonup> bytes"

record journal_entry =
  entry_addr :: address
  prev_state :: "account_state option"

record state_manager =
  db :: database
  root :: hash256
  dirty_nodes :: "(bytes \<times> bytes) list"
  journal :: "journal_entry list"

record snapshot_token =
  snap_state_root :: hash256
  journal_size :: nat

text \<open>\<^verbatim>\<open>MemoryDatabase::write_batch\<close>: every put in order, then every delete.\<close>

definition write_batch :: "database \<Rightarrow> (bytes \<times> bytes) list \<Rightarrow> bytes list \<Rightarrow> database" where
  "write_batch d puts deletes =
     foldl (\<lambda>m k. m(k := None)) (foldl (\<lambda>m (k, v). m(k \<mapsto> v)) d puts) deletes"

definition trie_put :: "(bytes \<Rightarrow> hash256) \<Rightarrow> state_manager \<Rightarrow> bytes \<Rightarrow> bytes \<Rightarrow> state_manager" where
  "trie_put blake s key val =
     (let key_str = blake key
      in s\<lparr>dirty_nodes := AList.update key_str val (dirty_nodes s)\<rparr>)"

text \<open>
  The body of \<^verbatim>\<open>StateTrie::get\<close> after the key has been hashed: the dirty nodes first, then
  the database under the state prefix 0x01.
\<close>

definition node_value :: "state_manager \<Rightarrow> hash256 \<Rightarrow> bytes option" where
  "node_value s key_hash =
     (case map_of (dirty_nodes s) key_hash of
        Some v \<Rightarrow> Some v
      | None \<Rightarrow> db s (0x01 # key_hash))"

definition trie_get :: "(bytes \<Rightarrow> hash256) \<Rightarrow> state_manager \<Rightarrow> bytes \<Rightarrow> bytes option" where
  "trie_get blake s key = (let key_hash = blake key in node_value s key_hash)"

definition trie_del :: "(bytes \<Rightarrow> hash256) \<Rightarrow> state_manager \<Rightarrow> bytes \<Rightarrow> state_manager" where
  "trie_del blake s key =
     (let key_str = blake key
      in s\<lparr>dirty_nodes := AList.update key_str [] (dirty_nodes s)\<rparr>)"

text \<open>
  The loop of \<^verbatim>\<open>StateTrie::commit\<close> over the dirty nodes, with the batch (puts, deletes) and
  the leaf hashes as accumulators. An empty value is a deletion and contributes no leaf.
\<close>

fun commit_nodes ::
  "(bytes \<Rightarrow> hash256) \<Rightarrow> (bytes \<times> bytes) list \<Rightarrow>
   (bytes \<times> bytes) list \<times> bytes list \<times> hash256 list \<Rightarrow>
   (bytes \<times> bytes) list \<times> bytes list \<times> hash256 list" where
  "commit_nodes blake [] acc = acc"
| "commit_nodes blake ((key_str, val) # rest) (puts, deletes, leaf_hashes) =
     (let db_key = 0x01 # key_str
      in if val = [] then commit_nodes blake rest (puts, deletes @ [db_key], leaf_hashes)
         else commit_nodes blake rest
                (puts @ [(db_key, val)], deletes, leaf_hashes @ [blake (key_str @ val)]))"

text \<open>
  \<^verbatim>\<open>StateTrie::commit\<close>. \<^verbatim>\<open>crypto::Blake2b256::merkle_root\<close> is declared in crypto.hpp only
  and is the parameter \<open>merkle_root\<close>. The root key is the five bytes 0x00 'R' 'O' 'O' 'T'.
\<close>

definition root_key :: bytes where
  "root_key = [0x00, 0x52, 0x4F, 0x4F, 0x54]"

definition trie_commit ::
  "(bytes \<Rightarrow> hash256) \<Rightarrow> (hash256 list \<Rightarrow> hash256) \<Rightarrow> state_manager \<Rightarrow> hash256 \<times> state_manager" where
  "trie_commit blake merkle_root s =
     (case commit_nodes blake (dirty_nodes s) ([], [], []) of
        (puts, deletes, leaf_hashes) \<Rightarrow>
          let d = write_batch (db s) puts deletes;
              r = (if leaf_hashes \<noteq> [] then merkle_root leaf_hashes else root s);
              d' = d(root_key \<mapsto> r)
          in (r, s\<lparr>db := d', dirty_nodes := [], root := r\<rparr>))"

definition get_account :: "(bytes \<Rightarrow> hash256) \<Rightarrow> state_manager \<Rightarrow> address \<Rightarrow> account_state" where
  "get_account blake s addr =
     (case trie_get blake s (payment_credential addr) of
        Some data \<Rightarrow> decode data
      | None \<Rightarrow> empty_account)"

definition set_account ::
  "(bytes \<Rightarrow> hash256) \<Rightarrow> state_manager \<Rightarrow> address \<Rightarrow> account_state \<Rightarrow> state_manager" where
  "set_account blake s addr st =
     (let key = payment_credential addr;
          val = encode st;
          prev = trie_get blake s key;
          entry = \<lparr>entry_addr = addr, prev_state = map_option decode prev\<rparr>;
          s1 = s\<lparr>journal := journal s @ [entry]\<rparr>
      in trie_put blake s1 key val)"

definition get_balance :: "(bytes \<Rightarrow> hash256) \<Rightarrow> state_manager \<Rightarrow> address \<Rightarrow> u64" where
  "get_balance blake s addr = balance (get_account blake s addr)"

definition add_balance :: "(bytes \<Rightarrow> hash256) \<Rightarrow> state_manager \<Rightarrow> address \<Rightarrow> u64 \<Rightarrow> state_manager" where
  "add_balance blake s addr amount =
     (let st = get_account blake s addr
      in set_account blake s addr (st\<lparr>balance := balance st + amount\<rparr>))"

text \<open>\<^verbatim>\<open>StateManager::sub_balance\<close> returns \<^verbatim>\<open>void\<close>; without the funds it does nothing.\<close>

definition sub_balance :: "(bytes \<Rightarrow> hash256) \<Rightarrow> state_manager \<Rightarrow> address \<Rightarrow> u64 \<Rightarrow> state_manager" where
  "sub_balance blake s addr amount =
     (let st = get_account blake s addr
      in if balance st \<ge> amount
         then set_account blake s addr (st\<lparr>balance := balance st - amount\<rparr>)
         else s)"

definition get_nonce :: "(bytes \<Rightarrow> hash256) \<Rightarrow> state_manager \<Rightarrow> address \<Rightarrow> u64" where
  "get_nonce blake s addr = nonce (get_account blake s addr)"

definition increment_nonce :: "(bytes \<Rightarrow> hash256) \<Rightarrow> state_manager \<Rightarrow> address \<Rightarrow> state_manager" where
  "increment_nonce blake s addr =
     (let st = get_account blake s addr
      in set_account blake s addr (st\<lparr>nonce := nonce st + 1\<rparr>))"

text \<open>Storage keys are \<^verbatim>\<open>'S' 'T' 'O' 'R'\<close>, the payment credential and the slot key.\<close>

definition storage_db_key :: "address \<Rightarrow> hash256 \<Rightarrow> bytes" where
  "storage_db_key addr key = [0x53, 0x54, 0x4F, 0x52] @ (payment_credential addr @ key)"

definition get_storage :: "state_manager \<Rightarrow> address \<Rightarrow> hash256 \<Rightarrow> bytes" where
  "get_storage s addr key =
     (case db s (storage_db_key addr key) of Some data \<Rightarrow> data | None \<Rightarrow> [])"

definition set_storage :: "state_manager \<Rightarrow> address \<Rightarrow> hash256 \<Rightarrow> bytes \<Rightarrow> state_manager" where
  "set_storage s addr key val = s\<lparr>db := (db s)(storage_db_key addr key \<mapsto> val)\<rparr>"

definition code_db_key :: "hash256 \<Rightarrow> bytes" where
  "code_db_key h = [0x43, 0x4F, 0x44, 0x45] @ h"

definition get_code :: "(bytes \<Rightarrow> hash256) \<Rightarrow> state_manager \<Rightarrow> address \<Rightarrow> bytes" where
  "get_code blake s addr =
     (let st = get_account blake s addr
      in case db s (code_db_key (code_hash st)) of Some data \<Rightarrow> data | None \<Rightarrow> [])"

definition set_code :: "(bytes \<Rightarrow> hash256) \<Rightarrow> state_manager \<Rightarrow> address \<Rightarrow> bytes \<Rightarrow> state_manager" where
  "set_code blake s addr code =
     (let ch = blake code;
          s1 = s\<lparr>db := (db s)(code_db_key ch \<mapsto> code)\<rparr>;
          st = get_account blake s1 addr
      in set_account blake s1 addr (st\<lparr>code_hash := ch\<rparr>))"

definition commit ::
  "(bytes \<Rightarrow> hash256) \<Rightarrow> (hash256 list \<Rightarrow> hash256) \<Rightarrow> state_manager \<Rightarrow> hash256 \<times> state_manager" where
  "commit blake merkle_root s = trie_commit blake merkle_root s"

definition state_root :: "state_manager \<Rightarrow> hash256" where
  "state_root s = root s"

definition snapshot :: "state_manager \<Rightarrow> snapshot_token" where
  "snapshot s = \<lparr>snap_state_root = root s, journal_size = length (journal s)\<rparr>"

text \<open>\<^verbatim>\<open>StateManager(db)\<close> on a database: an all-zero root, nothing dirty, an empty journal.\<close>

definition StateManager :: "database \<Rightarrow> state_manager" where
  "StateManager d = \<lparr>db = d, root = empty_hash, dirty_nodes = [], journal = []\<rparr>"

text \<open>
  \<^verbatim>\<open>StateManager::revert\<close>: while the journal is longer than it was at the snapshot, undo
  its last entry (write the previous account back, or mark the key deleted) and pop it.
\<close>

definition undo_entry :: "(bytes \<Rightarrow> hash256) \<Rightarrow> state_manager \<Rightarrow> journal_entry \<Rightarrow> state_manager" where
  "undo_entry blake s entry =
     (let key = payment_credential (entry_addr entry)
      in case prev_state entry of
           Some p \<Rightarrow> trie_put blake s key (encode p)
         | None \<Rightarrow> trie_del blake s key)"

function revert :: "(bytes \<Rightarrow> hash256) \<Rightarrow> state_manager \<Rightarrow> snapshot_token \<Rightarrow> state_manager" where
  "revert blake s snap =
     (if length (journal s) > journal_size snap
      then revert blake ((undo_entry blake s (last (journal s)))\<lparr>journal := butlast (journal s)\<rparr>) snap
      else s)"
  by pat_completeness auto
termination
  by (relation "measure (\<lambda>(blake, s, snap). length (journal s))") auto

declare revert.simps [simp del]

text \<open>
  The mutating operations of the state manager as data, so that a sequence of calls
  between a snapshot and a revert can be quantified over.
\<close>

datatype mutation =
    SetAccount address account_state
  | AddBalance address u64
  | SubBalance address u64
  | IncrementNonce address
  | SetStorage address hash256 bytes
  | SetCode address bytes

fun apply_mutation :: "(bytes \<Rightarrow> hash256) \<Rightarrow> state_manager \<Rightarrow> mutation \<Rightarrow> state_manager" where
  "apply_mutation blake s (SetAccount addr st) = set_account blake s addr st"
| "apply_mutation blake s (AddBalance addr amount) = add_balance blake s addr amount"
| "apply_mutation blake s (SubBalance addr amount) = sub_balance blake s addr amount"
| "apply_mutation blake s (IncrementNonce addr) = increment_nonce blake s addr"
| "apply_mutation blake s (SetStorage addr key val) = set_storage s addr key val"
| "apply_mutation blake s (SetCode addr code) = set_code blake s addr code"

text \<open>
  Auxiliary notions for the proofs about \<open>revert\<close>: the account that a hashed key denotes
  in a state, the effect of undoing one journal entry on that view, and the relation
  between a state and a later state whose journal suffix undoes back to it.
\<close>

definition acct :: "state_manager \<Rightarrow> hash256 \<Rightarrow> account_state" where
  "acct s hk = (case node_value s hk of Some d \<Rightarrow> decode d | None \<Rightarrow> empty_account)"

definition undo_view ::
  "(bytes \<Rightarrow> hash256) \<Rightarrow> journal_entry \<Rightarrow> (hash256 \<Rightarrow> account_state) \<Rightarrow> hash256 \<Rightarrow> account_state" where
  "undo_view blake e v =
     v(blake (payment_credential (entry_addr e)) :=
         (case prev_state e of Some p \<Rightarrow> decode (encode p) | None \<Rightarrow> empty_account))"

definition restores :: "(bytes \<Rightarrow> hash256) \<Rightarrow> state_manager \<Rightarrow> state_manager \<Rightarrow> bool" where
  "restores blake s s' \<longleftrightarrow>
     take (length (journal s)) (journal s') = journal s \<and>
     length (journal s) \<le> length (journal s') \<and>
     foldr (undo_view blake) (drop (length (journal s)) (journal s')) (acct s') = acct s"

text \<open>
  The specification's \<open>sub_balance\<close>, from its words ``underflow on \<open>sub_balance\<close> fails with
  \<open>BalanceUnderflow\<close>'': an error value for the caller, otherwise the code's update.
\<close>

datatype store_error = BalanceUnderflow

definition spec_sub_balance ::
  "(bytes \<Rightarrow> hash256) \<Rightarrow> state_manager \<Rightarrow> address \<Rightarrow> u64 \<Rightarrow> store_error + state_manager" where
  "spec_sub_balance blake s addr amount =
     (if get_balance blake s addr < amount then Inl BalanceUnderflow
      else Inr (set_account blake s addr
                 ((get_account blake s addr)\<lparr>balance := get_balance blake s addr - amount\<rparr>)))"


section \<open>Mempool (consensus.hpp, consensus.cpp)\<close>

datatype add_result =
  Added | Replaced | AlreadyKnown | Underpriced | NonceTooLow | NonceTooHigh
  | InsufficientFunds | PoolFull | Invalid

text \<open>
  \<^verbatim>\<open>SenderTxs::by_nonce\<close> is a \<^verbatim>\<open>std::map<uint64_t, Transaction>\<close>: an association list kept
  in increasing key order, so that its head is \<^verbatim>\<open>begin()\<close>.
\<close>

record sender_txs =
  by_nonce :: "(u64 \<times> transaction) list"
  pending_nonce :: u64

record tx_priority =
  prio_hash :: hash256
  effective_price :: u64

text \<open>
  \<^verbatim>\<open>by_sender_\<close> and \<^verbatim>\<open>by_hash_\<close> are unordered maps keyed by strings. \<^verbatim>\<open>by_hash_\<close> is iterated
  (when the priority queue is rebuilt) and counted, so it is an association list with
  distinct keys. The order of that list has no meaning: C++ leaves the iteration order of
  an unordered map unspecified, and where the map is iterated the order is a parameter
  (see \<open>rebuild_priority_queue\<close>). The priority queue is a list with its top at the head.
\<close>

record mempool =
  max_size :: nat
  by_sender :: "bytes \<rightharpoonup> sender_txs"
  by_hash :: "(bytes \<times> transaction) list"
  priority_queue :: "tx_priority list"

definition Mempool :: "nat \<Rightarrow> mempool" where
  "Mempool n = \<lparr>max_size = n, by_sender = Map.empty, by_hash = [], priority_queue = []\<rparr>"

fun map_put :: "u64 \<Rightarrow> 'v \<Rightarrow> (u64 \<times> 'v) list \<Rightarrow> (u64 \<times> 'v) list" where
  "map_put k v [] = [(k, v)]"
| "map_put k v ((k', v') # rest) =
     (if k = k' then (k, v) # rest
      else if k < k' then (k, v) # (k', v') # rest
      else (k', v') # map_put k v rest)"

text \<open>
  \<^verbatim>\<open>std::priority_queue<TxPriority>::push\<close> with \<^verbatim>\<open>operator<\<close> on the effective price. The
  list holds the queue in the order in which \<^verbatim>\<open>pop\<close> yields its entries, dearest first, and
  the new entry goes behind every entry that is not cheaper. Which of several entries of
  equal price leaves the queue first is not fixed by C++; in the list it is the one
  pushed first, and the order of pushing is a parameter wherever the queue is read.
\<close>

fun pq_push :: "tx_priority \<Rightarrow> tx_priority list \<Rightarrow> tx_priority list" where
  "pq_push e [] = [e]"
| "pq_push e (x # q) =
     (if effective_price x < effective_price e then e # x # q else x # pq_push e q)"

text \<open>
  The loop \<^verbatim>\<open>while (by_nonce.find(pending_nonce) != end) pending_nonce++\<close>. It makes at most
  as many steps as the map has entries (unless the map held every 64-bit nonce), which is
  the fuel.
\<close>

fun advance_pending :: "nat \<Rightarrow> (u64 \<times> transaction) list \<Rightarrow> u64 \<Rightarrow> u64" where
  "advance_pending 0 m p = p"
| "advance_pending (Suc fuel) m p =
     (if map_of m p \<noteq> None then advance_pending fuel m (p + 1) else p)"

definition add_transaction ::
  "(bytes \<Rightarrow> hash256) \<Rightarrow> mempool \<Rightarrow> transaction \<Rightarrow> u64 \<Rightarrow> add_result \<times> mempool" where
  "add_transaction blake m tx sender_balance =
     (let tx_hash = hash blake tx; hash_str = tx_hash
      in if map_of (by_hash m) hash_str \<noteq> None then (AlreadyKnown, m)
      else
        let required = tx_value tx + (tx_gas_limit tx * max_fee_per_gas tx)
        in if sender_balance < required then (InsufficientFunds, m)
        else if length (by_hash m) \<ge> max_size m then (PoolFull, m)
        else
          let sender_key = to_hex (tx_from tx);
              stxs = (case by_sender m sender_key of
                        Some st \<Rightarrow> st
                      | None \<Rightarrow> \<lparr>by_nonce = [], pending_nonce = 0\<rparr>)
          in case map_of (by_nonce stxs) (tx_nonce tx) of
               Some existing \<Rightarrow>
                 if max_fee_per_gas tx \<le> max_fee_per_gas existing * 110 div 100
                 then (Underpriced, m\<lparr>by_sender := (by_sender m)(sender_key \<mapsto> stxs)\<rparr>)
                 else
                   let old_hash_str = hash blake existing;
                       bh = AList.delete old_hash_str (by_hash m);
                       stxs' = stxs\<lparr>by_nonce := map_put (tx_nonce tx) tx (by_nonce stxs)\<rparr>;
                       bh' = AList.update hash_str tx bh
                   in (Replaced, m\<lparr>by_sender := (by_sender m)(sender_key \<mapsto> stxs'),
                                    by_hash := bh'\<rparr>)
             | None \<Rightarrow>
                 let bn = map_put (tx_nonce tx) tx (by_nonce stxs);
                     bh' = AList.update hash_str tx (by_hash m);
                     pn = (if fst (hd bn) = pending_nonce stxs
                           then advance_pending (length bn) bn (pending_nonce stxs)
                           else pending_nonce stxs);
                     stxs' = \<lparr>by_nonce = bn, pending_nonce = pn\<rparr>;
                     e = \<lparr>prio_hash = tx_hash, effective_price = max_fee_per_gas tx\<rparr>
                 in (Added, m\<lparr>by_sender := (by_sender m)(sender_key \<mapsto> stxs'),
                               by_hash := bh',
                               priority_queue := pq_push e (priority_queue m)\<rparr>))"

definition get_transaction :: "mempool \<Rightarrow> hash256 \<Rightarrow> transaction option" where
  "get_transaction m h = map_of (by_hash m) h"

definition get_pending_for :: "mempool \<Rightarrow> address \<Rightarrow> transaction list" where
  "get_pending_for m addr =
     (case by_sender m (to_hex addr) of
        None \<Rightarrow> []
      | Some stxs \<Rightarrow> map snd (by_nonce stxs))"

definition size_pool :: "mempool \<Rightarrow> nat" where
  "size_pool m = length (by_hash m)"

text \<open>
  \<^verbatim>\<open>Mempool::rebuild_priority_queue\<close>: the queue is emptied and every pooled transaction is
  pushed with its effective price at the given base fee. The hash is copied back from the
  first 32 bytes of the key string.

  The loop runs over the unordered map \<^verbatim>\<open>by_hash_\<close> in an order that C++ leaves
  unspecified, and the heap behind the queue may yield entries of equal price in any
  order. Both freedoms are the parameter \<open>iteration\<close>: it permutes the entries of
  \<^verbatim>\<open>by_hash_\<close> into the order in which entries of equal price leave the queue. Whatever
  the C++ library does on a pool, some permutation gives the same sequence of pops.
\<close>

definition rebuild_priority_queue ::
  "((bytes \<times> transaction) list \<Rightarrow> (bytes \<times> transaction) list) \<Rightarrow> mempool \<Rightarrow> u64 \<Rightarrow> mempool" where
  "rebuild_priority_queue iteration m base_fee =
     m\<lparr>priority_queue :=
         foldl (\<lambda>q (hash_str, tx).
                  pq_push \<lparr>prio_hash = take 32 hash_str,
                           effective_price = effective_gas_price tx base_fee\<rparr> q)
               [] (iteration (by_hash m))\<rparr>"

text \<open>
  The loop of \<^verbatim>\<open>Mempool::get_block_transactions\<close>, one equation per state of the queue. Its
  accumulators are the result vector, the set of selected hashes and the gas used; it
  returns the result and what is left of the queue.
\<close>

fun select_loop ::
  "(bytes \<times> transaction) list \<Rightarrow> u64 \<Rightarrow> u64 \<Rightarrow> tx_priority list \<Rightarrow>
   transaction list \<Rightarrow> bytes list \<Rightarrow> u64 \<Rightarrow> transaction list \<times> tx_priority list" where
  "select_loop bh gas_limit base_fee [] result selected gas_used = (result, [])"
| "select_loop bh gas_limit base_fee (top_entry # q) result selected gas_used =
     (if \<not> gas_used < gas_limit then (result, top_entry # q)
      else
        let hash_str = prio_hash top_entry
        in if hash_str \<in> set selected then select_loop bh gas_limit base_fee q result selected gas_used
        else case map_of bh hash_str of
               None \<Rightarrow> select_loop bh gas_limit base_fee q result selected gas_used
             | Some tx \<Rightarrow>
                 if gas_used + tx_gas_limit tx > gas_limit
                 then select_loop bh gas_limit base_fee q result selected gas_used
                 else if effective_gas_price tx base_fee < base_fee
                 then select_loop bh gas_limit base_fee q result selected gas_used
                 else select_loop bh gas_limit base_fee q (result @ [tx]) (hash_str # selected)
                        (gas_used + tx_gas_limit tx))"

definition get_block_transactions ::
  "((bytes \<times> transaction) list \<Rightarrow> (bytes \<times> transaction) list) \<Rightarrow> mempool \<Rightarrow> u64 \<Rightarrow> u64 \<Rightarrow>
   transaction list \<times> mempool" where
  "get_block_transactions iteration m gas_limit base_fee =
     (let m1 = rebuild_priority_queue iteration m base_fee
      in case select_loop (by_hash m1) gas_limit base_fee (priority_queue m1) [] [] 0 of
           (result, q) \<Rightarrow> (result, m1\<lparr>priority_queue := q\<rparr>))"

text \<open>The pooled transaction, if any, that has the sender and the nonce of a transaction.\<close>

definition slot_of :: "mempool \<Rightarrow> transaction \<Rightarrow> transaction option" where
  "slot_of m tx =
     (case by_sender m (to_hex (tx_from tx)) of
        None \<Rightarrow> None
      | Some stxs \<Rightarrow> map_of (by_nonce stxs) (tx_nonce tx))"

section \<open>Consensus: the rotating sequencer set (consensus.hpp, consensus.cpp)\<close>

datatype sequencer_status = Active | Standby | Slashed | Exiting

text \<open>
  \<^verbatim>\<open>Sequencer\<close> without its \<^verbatim>\<open>double uptime_percentage\<close>, which no function below reads, and
  the two members of \<^verbatim>\<open>ConsensusConfig\<close> that the sequencer set uses.
\<close>

record sequencer =
  seq_address :: address
  public_key :: bytes
  stake :: u64
  last_block_produced :: u64
  status :: sequencer_status
  blocks_produced :: u64
  missed_slots :: u64

record consensus_config =
  max_sequencers :: "32 word"
  min_stake :: u64

record consensus_engine =
  config :: consensus_config
  sequencers :: "sequencer list"
  active_set :: "sequencer list"

definition ConsensusEngine :: "consensus_config \<Rightarrow> consensus_engine" where
  "ConsensusEngine cfg = \<lparr>config = cfg, sequencers = [], active_set = []\<rparr>"

text \<open>
  \<^verbatim>\<open>std::sort\<close> with the comparator \<^verbatim>\<open>a.stake > b.stake\<close>. The comparator looks at the stake
  only; the order that \<^verbatim>\<open>std::sort\<close> gives to sequencers of equal stake is unspecified.
  The model is a stable insertion sort (they keep their registration order), which is
  what the insertion-sort phase of the usual implementations does on short vectors.
\<close>

fun insert_by_stake :: "sequencer \<Rightarrow> sequencer list \<Rightarrow> sequencer list" where
  "insert_by_stake s [] = [s]"
| "insert_by_stake s (x # xs) =
     (if stake s > stake x then s # x # xs else x # insert_by_stake s xs)"

definition sort_by_stake :: "sequencer list \<Rightarrow> sequencer list" where
  "sort_by_stake xs = foldl (\<lambda>acc s. insert_by_stake s acc) [] xs"

definition update_active_set :: "consensus_engine \<Rightarrow> consensus_engine" where
  "update_active_set e =
     (let eligible = filter (\<lambda>s. (status s = Active \<or> status s = Standby) \<and>
                                  stake s \<ge> min_stake (config e)) (sequencers e);
          sorted = sort_by_stake eligible;
          count = min (length sorted) (unat (max_sequencers (config e)))
      in e\<lparr>active_set := map (\<lambda>s. s\<lparr>status := Active\<rparr>) (take count sorted)\<rparr>)"

text \<open>\<^verbatim>\<open>std::find_if\<close> on the address, then \<^verbatim>\<open>*it = seq\<close>: the first match is overwritten.\<close>

fun replace_first :: "sequencer \<Rightarrow> sequencer list \<Rightarrow> sequencer list option" where
  "replace_first seq [] = None"
| "replace_first seq (x # xs) =
     (if seq_address x = seq_address seq then Some (seq # xs)
      else map_option ((#) x) (replace_first seq xs))"

definition register_sequencer :: "consensus_engine \<Rightarrow> sequencer \<Rightarrow> bool \<times> consensus_engine" where
  "register_sequencer e seq =
     (if stake seq < min_stake (config e) then (False, e)
      else
        let seqs = (case replace_first seq (sequencers e) of
                      Some updated \<Rightarrow> updated
                    | None \<Rightarrow> sequencers e @ [seq])
        in (True, update_active_set (e\<lparr>sequencers := seqs\<rparr>)))"

definition total_active_stake :: "consensus_engine \<Rightarrow> u64" where
  "total_active_stake e =
     (let total = foldl (\<lambda>t s. t + stake s) 0 (active_set e)
      in if total > 0 then total else 1)"

text \<open>The loop of \<^verbatim>\<open>get_leader_for_slot\<close>; \<open>None\<close> when it runs off the end of the set.\<close>

fun leader_walk :: "sequencer list \<Rightarrow> u64 \<Rightarrow> u64 \<Rightarrow> address option" where
  "leader_walk [] slot_stake cumulative = None"
| "leader_walk (seq # rest) slot_stake cumulative =
     (let cumulative' = cumulative + stake seq
      in if slot_stake < cumulative' then Some (seq_address seq)
         else leader_walk rest slot_stake cumulative')"

definition get_leader_for_slot :: "consensus_engine \<Rightarrow> u64 \<Rightarrow> address" where
  "get_leader_for_slot e slot =
     (case active_set e of
        [] \<Rightarrow> default_address
      | first # _ \<Rightarrow>
          (let total_stake = total_active_stake e;
               slot_stake = slot mod total_stake
           in (case leader_walk (active_set e) slot_stake 0 of
                 Some a \<Rightarrow> a
               | None \<Rightarrow> seq_address first)))"

section \<open>The virtual machine (execution.hpp, execution.cpp)\<close>

text \<open>
  \<^verbatim>\<open>uint256\<close> is \<^verbatim>\<open>std::array<uint64_t, 4>\<close>, index 0 the most significant limb. The stack
  vector is a list with \<^verbatim>\<open>back()\<close> at its head. Program counter and sizes are \<^verbatim>\<open>size_t\<close>
  values that stay below the code length, hence natural numbers.
\<close>

type_synonym uint256 = "u64 list"

definition zero256 :: uint256 where
  "zero256 = [0, 0, 0, 0]"

record log_entry =
  log_address :: address
  topics :: "hash256 list"
  log_data :: bytes

record execution_context =
  caller :: address
  origin :: address
  coinbase :: address
  block_number :: u64
  timestamp :: u64
  gas_limit :: u64
  gas_price :: u64
  base_fee :: u64
  chain_id :: u64
  block_hash :: hash256

record execution_result =
  success :: bool
  gas_used :: u64
  return_data :: bytes
  error :: string
  created_address :: "address option"
  logs :: "log_entry list"

text \<open>\<^verbatim>\<open>ExecutionResult result;\<close> with the default member initialisers.\<close>

definition ExecutionResult :: execution_result where
  "ExecutionResult =
     \<lparr>success = False, gas_used = 0, return_data = [], error = [], created_address = None,
      logs = []\<rparr>"

record execution_state =
  memory :: bytes
  stack :: "uint256 list"
  gas_remaining :: u64
  pc :: nat
  stopped :: bool
  reverted :: bool
  st_return_data :: bytes

text \<open>\<^verbatim>\<open>get_opcode_gas_cost\<close> with the constants of \<^verbatim>\<open>GasCosts\<close> written out.\<close>

definition get_opcode_gas_cost :: "byte \<Rightarrow> u64" where
  "get_opcode_gas_cost opcode =
     (if opcode = 0x00 then 0
      else if opcode \<in> {0x01, 0x02, 0x03} then 3
      else if opcode \<in> {0x10, 0x11, 0x12, 0x13} then 3
      else if opcode \<in> {0x14, 0x15} then 3
      else if opcode = 0x50 then 2
      else if opcode \<in> {0x51, 0x52} then 3
      else if opcode = 0x54 then 800
      else if opcode = 0x55 then 20000
      else if opcode = 0x56 then 8
      else if opcode = 0x57 then 10
      else if opcode = 0x5B then 1
      else if opcode \<in> {0xF3, 0xFD} then 0
      else if opcode = 0xFE then 0
      else if opcode = 0xFF then 5000
      else if 0x60 \<le> opcode \<and> opcode \<le> 0x7F then 3
      else if 0x80 \<le> opcode \<and> opcode \<le> 0x8F then 3
      else if 0x90 \<le> opcode \<and> opcode \<le> 0x9F then 3
      else 2)"

text \<open>
  The 32 bytes of a stack word, most significant first: the double loop
  \<^verbatim>\<open>key[i * 8 + j] = (key_w[i] >> (56 - j * 8)) & 0xFF\<close> of SLOAD and SSTORE.
\<close>

definition word_bytes :: "uint256 \<Rightarrow> bytes" where
  "word_bytes w = concat (map append_uint64 w)"

text \<open>
  The loop of SLOAD that packs at most 32 stored bytes into a word:
  \<^verbatim>\<open>val[i / 8] |= uint64_t(val_bytes[i]) << (56 - (i % 8) * 8)\<close>.
\<close>

definition bytes_word :: "bytes \<Rightarrow> uint256" where
  "bytes_word val_bytes =
     foldl (\<lambda>val i. val[i div 8 := val ! (i div 8) OR
                          push_bit (56 - (i mod 8) * 8) (ucast (val_bytes ! i))])
       zero256 [0 ..< min (length val_bytes) 32]"

text \<open>
  The loop of PUSH1..PUSH32 over the \<open>n\<close> immediate bytes, as far as the code reaches:
  byte \<open>i\<close> goes to limb \<^verbatim>\<open>(31 - i) / 8\<close>, shifted by \<^verbatim>\<open>56 - ((31 - i) % 8) * 8\<close>.
\<close>

definition push_value :: "bytes \<Rightarrow> nat \<Rightarrow> nat \<Rightarrow> uint256" where
  "push_value code p n =
     foldl (\<lambda>val i.
              if p + 1 + i < length code
              then val[(31 - i) div 8 := val ! ((31 - i) div 8) OR
                         push_bit (56 - ((31 - i) mod 8) * 8) (ucast (code ! (p + 1 + i)))]
              else val)
       zero256 [0 ..< n]"

text \<open>
  The window \<^verbatim>\<open>memory[offset, offset + size)\<close> that RETURN and REVERT copy to the return
  data when \<^verbatim>\<open>offset + size <= memory.size()\<close> (64-bit addition); otherwise the return data
  stay as they were.
\<close>

definition return_window :: "execution_state \<Rightarrow> execution_state" where
  "return_window st =
     (case stack st of
        offset_w # size_w # rest \<Rightarrow>
          let offset = offset_w ! 3; sz = size_w ! 3;
              st1 = st\<lparr>stack := rest\<rparr>
          in if unat (offset + sz) \<le> length (memory st)
             then st1\<lparr>st_return_data := take (unat sz) (drop (unat offset) (memory st))\<rparr>
             else st1
      | _ \<Rightarrow> st)"

text \<open>
  One pass through the \<^verbatim>\<open>switch (opcode)\<close> of \<^verbatim>\<open>EVM::execute_code\<close>, for the opcodes STOP,
  POP, SLOAD, SSTORE, JUMPDEST, PUSH1..PUSH32, RETURN, REVERT and INVALID. The other
  cases of the switch are not part of this development: for them the result is \<open>None\<close>,
  and nothing is proved about programs that use them. The triple is the execution state,
  \<^verbatim>\<open>result.error\<close> and the state manager.
\<close>

definition exec_opcode ::
  "address \<Rightarrow> bytes \<Rightarrow> bool \<Rightarrow> byte \<Rightarrow> execution_state \<Rightarrow> string \<Rightarrow> state_manager \<Rightarrow>
   (execution_state \<times> string \<times> state_manager) option" where
  "exec_opcode addr code is_static opcode st err sm =
     (if opcode = 0x00 then Some (st\<lparr>stopped := True\<rparr>, err, sm)
      else if opcode = 0x50 then
        Some ((if stack st \<noteq> [] then st\<lparr>stack := tl (stack st)\<rparr> else st), err, sm)
      else if opcode = 0x54 then
        (case stack st of
           key_w # rest \<Rightarrow>
             let key = word_bytes key_w;
                 val_bytes = get_storage sm addr key
             in Some (st\<lparr>stack := bytes_word val_bytes # rest\<rparr>, err, sm)
         | [] \<Rightarrow> Some (st, err, sm))
      else if opcode = 0x55 then
        (if is_static then
           Some (st\<lparr>reverted := True\<rparr>, ''State modification in static call'', sm)
         else case stack st of
           key_w # val_w # rest \<Rightarrow>
             Some (st\<lparr>stack := rest\<rparr>, err,
                   set_storage sm addr (word_bytes key_w) (word_bytes val_w))
         | _ \<Rightarrow> Some (st, err, sm))
      else if opcode = 0x5B then Some (st, err, sm)
      else if 0x60 \<le> opcode \<and> opcode \<le> 0x7F then
        (let n = unat opcode - 0x60 + 1
         in Some (st\<lparr>stack := push_value code (pc st) n # stack st, pc := pc st + n\<rparr>, err, sm))
      else if opcode = 0xF3 then Some ((return_window st)\<lparr>stopped := True\<rparr>, err, sm)
      else if opcode = 0xFD then Some ((return_window st)\<lparr>reverted := True\<rparr>, err, sm)
      else if opcode = 0xFE then Some (st\<lparr>reverted := True\<rparr>, ''Invalid opcode'', sm)
      else None)"

text \<open>
  The \<^verbatim>\<open>while\<close> loop of \<^verbatim>\<open>EVM::execute_code\<close> and the three assignments after it. Running out
  of gas returns at once with \<^verbatim>\<open>gas_used = gas_limit\<close>.
\<close>

function run_code ::
  "address \<Rightarrow> bytes \<Rightarrow> bool \<Rightarrow> u64 \<Rightarrow> execution_state \<Rightarrow> string \<Rightarrow> state_manager \<Rightarrow>
   (execution_result \<times> state_manager) option" where
  "run_code addr code is_static gas_lim st err sm =
     (if \<not> stopped st \<and> \<not> reverted st \<and> pc st < length code then
        let opcode = code ! pc st;
            gas_cost = get_opcode_gas_cost opcode
        in if gas_remaining st < gas_cost then
             Some (ExecutionResult\<lparr>success := False, error := ''Out of gas'', gas_used := gas_lim\<rparr>, sm)
           else
             (case exec_opcode addr code is_static opcode
                     (st\<lparr>gas_remaining := gas_remaining st - gas_cost\<rparr>) err sm of
                None \<Rightarrow> None
              | Some (st', err', sm') \<Rightarrow>
                  run_code addr code is_static gas_lim (st'\<lparr>pc := pc st' + 1\<rparr>) err' sm')
      else
        Some (ExecutionResult\<lparr>error := err,
                              gas_used := gas_lim - gas_remaining st,
                              success := \<not> reverted st,
                              return_data := st_return_data st\<rparr>, sm))"
  by pat_completeness auto
termination
  by (relation "measure (\<lambda>(addr, code, is_static, gas_lim, st, err, sm). length code - pc st)")
     (auto simp: exec_opcode_def return_window_def Let_def split: if_splits list.splits)

declare run_code.simps [simp del]

text \<open>
  \<^verbatim>\<open>EVM::execute_code\<close>. The registered precompiles (\<^verbatim>\<open>precompiles_\<close>, keyed by the address in
  hexadecimal) are a parameter; a precompile returns its result without touching the
  state.
\<close>

type_synonym precompiles = "bytes \<rightharpoonup> (bytes \<Rightarrow> u64 \<Rightarrow> execution_result)"

definition execute_code ::
  "precompiles \<Rightarrow> state_manager \<Rightarrow> address \<Rightarrow> address \<Rightarrow> bytes \<Rightarrow> bytes \<Rightarrow> u64 \<Rightarrow> u64 \<Rightarrow> bool \<Rightarrow>
   (execution_result \<times> state_manager) option" where
  "execute_code pcs sm from_addr addr code input val gas_lim is_static =
     (if code = [] then Some (ExecutionResult\<lparr>gas_used := 0, success := True\<rparr>, sm)
      else case pcs (to_hex addr) of
             Some precompile \<Rightarrow> Some (precompile input gas_lim, sm)
           | None \<Rightarrow>
               run_code addr code is_static gas_lim
                 \<lparr>memory = [], stack = [], gas_remaining = gas_lim, pc = 0, stopped = False,
                  reverted = False, st_return_data = []\<rparr> [] sm)"

text \<open>\<^verbatim>\<open>EVM::create\<close>; \<^verbatim>\<open>GasCosts::CREATE\<close> is 32000.\<close>

definition create ::
  "(bytes \<Rightarrow> hash256) \<Rightarrow> precompiles \<Rightarrow> state_manager \<Rightarrow> address \<Rightarrow> bytes \<Rightarrow> u64 \<Rightarrow> u64 \<Rightarrow>
   (execution_result \<times> state_manager) option" where
  "create blake pcs sm from_addr code val gas_lim =
     (let result = ExecutionResult\<lparr>gas_used := 32000\<rparr>;
          n = get_nonce blake sm from_addr;
          address_preimage = payment_credential from_addr @ append_uint64 n;
          h = blake address_preimage;
          contract_addr = default_address\<lparr>addr_kind := Script, payment_credential := take 28 h\<rparr>;
          sm1 = (if val > 0 then add_balance blake sm contract_addr val else sm)
      in case execute_code pcs sm1 from_addr contract_addr code [] val
                (gas_lim - gas_used result) False of
           None \<Rightarrow> None
         | Some (init_result, sm2) \<Rightarrow>
             let result = result\<lparr>gas_used := gas_used result + gas_used init_result\<rparr>
             in if success init_result
                then Some (result\<lparr>success := True, created_address := Some contract_addr,
                                   logs := logs init_result\<rparr>,
                           set_code blake sm2 contract_addr (return_data init_result))
                else Some (result\<lparr>success := False, error := error init_result\<rparr>, sm2))"

text \<open>\<^verbatim>\<open>EVM::execute_transaction\<close>; \<^verbatim>\<open>GasCosts::TRANSACTION\<close> is 21000.\<close>

definition execute_transaction ::
  "(bytes \<Rightarrow> hash256) \<Rightarrow> precompiles \<Rightarrow> state_manager \<Rightarrow> transaction \<Rightarrow> execution_context \<Rightarrow>
   (execution_result \<times> state_manager) option" where
  "execute_transaction blake pcs sm tx ctx =
     (let sm1 = increment_nonce blake sm (tx_from tx);
          gas_cost = tx_gas_limit tx * effective_gas_price tx (base_fee ctx)
      in if get_balance blake sm1 (tx_from tx) < tx_value tx + gas_cost
         then Some (ExecutionResult\<lparr>success := False, error := ''Insufficient balance''\<rparr>, sm1)
         else
           let sm2 = sub_balance blake sm1 (tx_from tx) (tx_value tx + gas_cost);
               is_create = (payment_credential (tx_to tx) = replicate 28 0);
               executed =
                 (if is_create
                  then create blake pcs sm2 (tx_from tx) (tx_data tx) (tx_value tx) (tx_gas_limit tx)
                  else
                    let sm3 = add_balance blake sm2 (tx_to tx) (tx_value tx);
                        code = get_code blake sm3 (tx_to tx)
                    in if code \<noteq> []
                       then execute_code pcs sm3 (tx_from tx) (tx_to tx) code (tx_data tx)
                              (tx_value tx) (tx_gas_limit tx) False
                       else Some (ExecutionResult\<lparr>success := True, gas_used := 21000\<rparr>, sm3))
           in case executed of
                None \<Rightarrow> None
              | Some (result, sm4) \<Rightarrow>
                  let gas_refund = (tx_gas_limit tx - gas_used result) *
                                   effective_gas_price tx (base_fee ctx);
                      sm5 = add_balance blake sm4 (tx_from tx) gas_refund;
                      gas_payment = gas_used result * effective_gas_price tx (base_fee ctx);
                      sm6 = add_balance blake sm5 (coinbase ctx) gas_payment
                  in Some (result, sm6))"

section \<open>The transaction processor (execution.cpp)\<close>

record transaction_receipt =
  transaction_hash :: hash256
  receipt_block_number :: u64
  transaction_index :: u64
  receipt_from :: address
  receipt_to :: address
  receipt_success :: bool
  receipt_status :: u64
  receipt_gas_used :: u64
  cumulative_gas_used :: u64
  contract_address :: "address option"
  receipt_logs :: "log_entry list"

definition TransactionReceipt :: transaction_receipt where
  "TransactionReceipt =
     \<lparr>transaction_hash = empty_hash, receipt_block_number = 0, transaction_index = 0,
      receipt_from = default_address, receipt_to = default_address, receipt_success = False,
      receipt_status = 0, receipt_gas_used = 0, cumulative_gas_used = 0,
      contract_address = None, receipt_logs = []\<rparr>"

record process_result =
  pr_receipt :: transaction_receipt
  pr_gas_used :: u64
  pr_success :: bool
  pr_error :: string

text \<open>
  \<^verbatim>\<open>TransactionProcessor::intrinsic_gas\<close>: 21000, plus 32000 for a creation, plus 4 for
  every zero byte and 16 for every other byte of the data.
\<close>

definition intrinsic_gas :: "transaction \<Rightarrow> u64" where
  "intrinsic_gas tx =
     (let gas = 21000;
          gas = (if payment_credential (tx_to tx) = replicate 28 0 then gas + 32000 else gas)
      in foldl (\<lambda>g b. g + (if b = 0 then 4 else 16)) gas (tx_data tx))"

text \<open>\<^verbatim>\<open>TransactionProcessor::validate\<close>, returning \<^verbatim>\<open>{valid, error}\<close>.\<close>

definition validate ::
  "(bytes \<Rightarrow> hash256) \<Rightarrow> state_manager \<Rightarrow> transaction \<Rightarrow> u64 \<Rightarrow> bool \<times> string" where
  "validate blake sm tx base_fee' =
     (let expected_nonce = get_nonce blake sm (tx_from tx)
      in if tx_nonce tx \<noteq> expected_nonce then (False, ''Invalid nonce'')
      else
        let cost = tx_value tx + (tx_gas_limit tx * max_fee_per_gas tx)
        in if get_balance blake sm (tx_from tx) < cost then (False, ''Insufficient balance'')
        else if tx_gas_limit tx < intrinsic_gas tx then (False, ''Gas limit too low'')
        else if max_fee_per_gas tx < base_fee' then (False, ''Max fee below base fee'')
        else (True, []))"

text \<open>
  \<^verbatim>\<open>TransactionProcessor::process\<close>. When validation fails the C++ returns a result of which
  only \<^verbatim>\<open>success = false\<close>, the error and \<^verbatim>\<open>receipt.success = false\<close> are set (its
  \<^verbatim>\<open>gas_used\<close> is left uninitialised); this early return is \<open>Inl\<close> of the error. The outer
  option is \<open>None\<close> only when the code runs an opcode that is not embedded.
\<close>

definition process ::
  "(bytes \<Rightarrow> hash256) \<Rightarrow> precompiles \<Rightarrow> state_manager \<Rightarrow> transaction \<Rightarrow> execution_context \<Rightarrow>
   ((string + process_result) \<times> state_manager) option" where
  "process blake pcs sm tx ctx =
     (let validation = validate blake sm tx (base_fee ctx)
      in if \<not> fst validation then Some (Inl (snd validation), sm)
         else case execute_transaction blake pcs sm tx ctx of
                None \<Rightarrow> None
              | Some (exec_result, sm') \<Rightarrow>
                  let receipt = TransactionReceipt
                        \<lparr>transaction_hash := hash blake tx,
                         receipt_success := success exec_result,
                         receipt_gas_used := gas_used exec_result,
                         contract_address := created_address exec_result,
                         receipt_logs := logs exec_result\<rparr>
                  in Some (Inr \<lparr>pr_receipt = receipt, pr_gas_used = gas_used exec_result,
                                pr_success = success exec_result,
                                pr_error = error exec_result\<rparr>, sm'))"

text \<open>
  The result that \<open>process\<close> builds from an execution result: the receipt fields it sets and
  the gas, success flag and error it copies.
\<close>

definition receipt_of :: "(bytes \<Rightarrow> hash256) \<Rightarrow> transaction \<Rightarrow> execution_result \<Rightarrow> process_result" where
  "receipt_of blake tx r =
     \<lparr>pr_receipt = TransactionReceipt
        \<lparr>transaction_hash := hash blake tx, receipt_success := success r,
         receipt_gas_used := gas_used r, contract_address := created_address r,
         receipt_logs := logs r\<rparr>,
      pr_gas_used = gas_used r, pr_success = success r, pr_error = error r\<rparr>"

text \<open>
  The cost \<open>value + gas_limit * max_fee\<close> of a transaction as a number, without the
  wrap-around of the 64-bit arithmetic in which \<open>validate\<close> computes it.
\<close>

definition required_cost :: "transaction \<Rightarrow> nat" where
  "required_cost tx = unat (tx_value tx) + unat (tx_gas_limit tx) * unat (max_fee_per_gas tx)"

text \<open>
  The specification's validation, from its words: ``Validation order (each step fails with
  the named error): nonce, \<open>max_fee \<ge> base_fee\<close>, \<open>gas_limit \<ge> intrinsic_gas\<close>, balance,
  \<open>verify_signature\<close>''. The code's messages for the first four errors are
  ``Invalid nonce'', ``Max fee below base fee'', ``Gas limit too low'' and
  ``Insufficient balance''.
\<close>

datatype validation_error =
  ErrBadNonce | ErrFeeTooLow | ErrIntrinsicTooLow | ErrInsufficientFunds | ErrBadSignature

definition spec_validate ::
  "(bytes \<Rightarrow> hash256) \<Rightarrow> (bytes \<Rightarrow> bytes \<Rightarrow> bytes \<Rightarrow> bool) \<Rightarrow> state_manager \<Rightarrow> transaction \<Rightarrow>
   execution_context \<Rightarrow> validation_error option" where
  "spec_validate blake ed_verify sm tx ctx =
     (if tx_nonce tx \<noteq> get_nonce blake sm (tx_from tx) then Some ErrBadNonce
      else if \<not> max_fee_per_gas tx \<ge> base_fee ctx then Some ErrFeeTooLow
      else if \<not> tx_gas_limit tx \<ge> intrinsic_gas tx then Some ErrIntrinsicTooLow
      else if \<not> get_balance blake sm (tx_from tx) \<ge>
                  tx_value tx + tx_gas_limit tx * max_fee_per_gas tx then Some ErrInsufficientFunds
      else if \<not> verify_signature blake ed_verify tx then Some ErrBadSignature
      else None)"

text \<open>
  The specification's leader, from its words: ``interpret slot \<open>s\<close> modulo total active
  stake; walk the active set in descending-stake order accumulating stake; the first sequencer
  whose running total exceeds \<open>s mod total_stake\<close> is the leader. ... Ties broken by address
  bytewise.'' Stakes are summed as natural numbers. \<open>bytes_less\<close> is the bytewise order,
  \<open>spec_order\<close> puts a list in descending-stake order with equal stakes in address order,
  \<open>first_exceeding\<close> is the walk and \<open>spec_leader\<close> the leader.
\<close>

fun bytes_less :: "bytes \<Rightarrow> bytes \<Rightarrow> bool" where
  "bytes_less [] [] = False"
| "bytes_less [] (y # ys) = True"
| "bytes_less (x # xs) [] = False"
| "bytes_less (x # xs) (y # ys) = (x < y \<or> (x = y \<and> bytes_less xs ys))"

definition spec_before :: "sequencer \<Rightarrow> sequencer \<Rightarrow> bool" where
  "spec_before a b \<longleftrightarrow>
     stake a > stake b \<or>
     (stake a = stake b \<and>
      bytes_less (payment_credential (seq_address a)) (payment_credential (seq_address b)))"

fun spec_insert :: "sequencer \<Rightarrow> sequencer list \<Rightarrow> sequencer list" where
  "spec_insert s [] = [s]"
| "spec_insert s (x # xs) = (if spec_before s x then s # x # xs else x # spec_insert s xs)"

definition spec_order :: "sequencer list \<Rightarrow> sequencer list" where
  "spec_order xs = foldr spec_insert xs []"

definition stake_sum :: "sequencer list \<Rightarrow> nat" where
  "stake_sum qs = sum_list (map (\<lambda>q. unat (stake q)) qs)"

fun first_exceeding :: "sequencer list \<Rightarrow> nat \<Rightarrow> nat \<Rightarrow> address option" where
  "first_exceeding [] r running = None"
| "first_exceeding (q # qs) r running =
     (let running' = running + unat (stake q)
      in if running' > r then Some (seq_address q) else first_exceeding qs r running')"

definition spec_leader :: "sequencer list \<Rightarrow> nat \<Rightarrow> address option" where
  "spec_leader active s =
     (let total_stake = stake_sum active
      in first_exceeding (spec_order active) (s mod total_stake) 0)"

section \<open>Example values\<close>

text \<open>
  The digest, the Merkle root and the signature check are parameters of the model. The
  examples below instantiate them with stand-ins that can be evaluated: a digest that
  reads 32 bytes off its input (bytes 116 to 147 of a long input, which in a transaction
  preimage are value, nonce, gas limit and maximal fee; the first bytes of a short input,
  zero padded), a Merkle root that digests the concatenated leaves, and a signature check
  that rejects everything.
\<close>

definition example_digest :: "bytes \<Rightarrow> hash256" where
  "example_digest bs = take 32 (drop 116 bs @ bs @ replicate 32 0)"

definition example_merkle_root :: "hash256 list \<Rightarrow> hash256" where
  "example_merkle_root hs = example_digest (concat hs)"

definition reject_all :: "bytes \<Rightarrow> bytes \<Rightarrow> bytes \<Rightarrow> bool" where
  "reject_all msg sig pk = False"

definition alice :: address where
  "alice = default_address\<lparr>payment_credential := replicate 28 0xA1\<rparr>"

definition bob :: address where
  "bob = default_address\<lparr>payment_credential := replicate 28 0xB2\<rparr>"

definition carol :: address where
  "carol = default_address\<lparr>payment_credential := replicate 28 0xC3\<rparr>"

text \<open>A transfer from alice to bob with gas limit 21000 and an all-zero signature.\<close>

definition transfer :: "u64 \<Rightarrow> u64 \<Rightarrow> u64 \<Rightarrow> transaction" where
  "transfer v n fee =
     \<lparr>tx_from = alice, tx_to = bob, tx_value = v, tx_nonce = n, tx_data = [],
      tx_gas_limit = 21000, max_fee_per_gas = fee, max_priority_fee_per_gas = 0,
      sender_pubkey = replicate 32 0, signature = replicate 64 0\<rparr>"

text \<open>
  Two histories of single-account writes, each write followed by a commit, that differ
  only in the order of the two accounts.
\<close>

definition funded :: "u64 \<Rightarrow> account_state" where
  "funded b = empty_account\<lparr>balance := b\<rparr>"

definition write_and_commit ::
  "state_manager \<Rightarrow> address \<Rightarrow> account_state \<Rightarrow> hash256 \<times> state_manager" where
  "write_and_commit s addr st =
     commit example_digest example_merkle_root (set_account example_digest s addr st)"

definition alice_then_bob :: "hash256 \<times> state_manager" where
  "alice_then_bob =
     write_and_commit (snd (write_and_commit (StateManager Map.empty) alice (funded 10))) bob (funded 20)"

definition bob_then_alice :: "hash256 \<times> state_manager" where
  "bob_then_alice =
     write_and_commit (snd (write_and_commit (StateManager Map.empty) bob (funded 20))) alice (funded 10)"

text \<open>
  A store in which alice holds 1000000, the same store with a contract at bob whose code
  is \<^verbatim>\<open>PUSH1 1, PUSH1 0, SSTORE, PUSH1 0, PUSH1 0, REVERT\<close>, and a call of that contract by
  alice with gas limit 100000.
\<close>

definition example_context :: "u64 \<Rightarrow> execution_context" where
  "example_context bf =
     \<lparr>caller = alice, origin = alice, coinbase = carol, block_number = 1, timestamp = 0,
      gas_limit = 30000000, gas_price = bf, base_fee = bf, chain_id = 1, block_hash = empty_hash\<rparr>"

definition funded_store :: state_manager where
  "funded_store = set_account example_digest (StateManager Map.empty) alice (funded 1000000)"

definition revert_code :: bytes where
  "revert_code = [0x60, 0x01, 0x60, 0x00, 0x55, 0x60, 0x00, 0x60, 0x00, 0xFD]"

definition contract_store :: state_manager where
  "contract_store = set_code example_digest funded_store bob revert_code"

definition call_tx :: transaction where
  "call_tx = (transfer 0 0 7)\<lparr>tx_gas_limit := 100000\<rparr>"


text \<open>
  Pools: one transfer of alice with nonce 0 and maximal fee 1000000000; transfers with
  nonces 0 and 2 (nothing at nonce 1); and a transaction of gas limit 5 together with one
  of gas limit \<open>2\<^sup>6\<^sup>4 - 1\<close> and fee 0. The sender balance passed to the pool is ample.
\<close>

definition ample :: u64 where "ample = 1000000000000000"

definition pool_one :: mempool where
  "pool_one = snd (add_transaction example_digest (Mempool 10000) (transfer 5 0 1000000000) ample)"

definition pool_gap :: mempool where
  "pool_gap = snd (add_transaction example_digest
                (snd (add_transaction example_digest (Mempool 10000) (transfer 5 0 7) ample))
                (transfer 5 2 7) ample)"

definition small_tx :: transaction where
  "small_tx = (transfer 0 0 1)\<lparr>tx_gas_limit := 5, max_priority_fee_per_gas := 1\<rparr>"

definition huge_tx :: transaction where
  "huge_tx = (transfer 0 1 0)\<lparr>tx_gas_limit := 0xFFFFFFFFFFFFFFFF\<rparr>"

definition pool_wrap :: mempool where
  "pool_wrap = snd (add_transaction example_digest
                 (snd (add_transaction example_digest (Mempool 10000) small_tx 1000)) huge_tx 1000)"

text \<open>
  Two engines. In \<open>engine_tie\<close> bob registers before alice with the same stake; in
  \<open>engine_wrap\<close> the two stakes add up to \<open>2\<^sup>6\<^sup>4 + 1\<close>.
\<close>

definition example_config :: consensus_config where
  "example_config = \<lparr>max_sequencers = 21, min_stake = 100000\<rparr>"

definition staker :: "address \<Rightarrow> u64 \<Rightarrow> sequencer" where
  "staker a st =
     \<lparr>seq_address = a, public_key = replicate 32 0, stake = st, last_block_produced = 0,
      status = Standby, blocks_produced = 0, missed_slots = 0\<rparr>"

definition engine_tie :: consensus_engine where
  "engine_tie =
     snd (register_sequencer
            (snd (register_sequencer (ConsensusEngine example_config) (staker bob 100000)))
            (staker alice 100000))"

definition engine_wrap :: consensus_engine where
  "engine_wrap =
     snd (register_sequencer
            (snd (register_sequencer (ConsensusEngine example_config)
                    (staker alice 0x8000000000000001)))
            (staker bob 0x8000000000000000))"

section \<open>Signature verification\<close>

lemma all_ff_iff: "all_ff bs \<longleftrightarrow> (\<forall>b \<in> set bs. b = 0xFF)"
  by (induction bs) auto

text \<open>
  C7. A transaction whose signature bytes are all 0xFF is accepted whatever its contents
  and public key (and whatever the verification primitive would say); for every other
  signature the result is that of the verification primitive on the transaction hash,
  the signature and the sender's public key.
\<close>

theorem verify_signature_dev_bypass:
  "((\<forall>b \<in> set (signature tx). b = 0xFF) \<longrightarrow> verify_signature blake ed_verify tx) \<and>
   (\<not> (\<forall>b \<in> set (signature tx). b = 0xFF) \<longrightarrow>
      verify_signature blake ed_verify tx =
        ed_verify (hash blake tx) (signature tx) (sender_pubkey tx))"
  by (simp add: verify_signature_def all_ff_iff Let_def)

theorem verify_signature_dev_bypass_witness:
  "verify_signature example_digest reject_all ((transfer 5 0 7)\<lparr>signature := replicate 64 0xFF\<rparr>) \<and>
   \<not> verify_signature example_digest reject_all (transfer 5 0 7)"
proof -
  have ff: "\<forall>b \<in> set (signature ((transfer 5 0 7)\<lparr>signature := replicate 64 0xFF\<rparr>)). b = 0xFF"
    by simp
  have nff: "\<not> (\<forall>b \<in> set (signature (transfer 5 0 7)). b = 0xFF)"
    by (simp add: transfer_def)
  show ?thesis
    using verify_signature_dev_bypass
            [of "(transfer 5 0 7)\<lparr>signature := replicate 64 0xFF\<rparr>" example_digest reject_all]
          verify_signature_dev_bypass [of "transfer 5 0 7" example_digest reject_all]
          ff nff
    by (simp add: reject_all_def)
qed

section \<open>Encoding of integers and account states\<close>

lemma byte_of_u64: "(ucast (ucast (w AND 0xFF :: u64) :: byte) :: u64) = take_bit 8 w"
proof -
  have "(0xFF :: u64) = mask 8" by (simp add: mask_eq_exp_minus_1)
  then have "w AND 0xFF = take_bit 8 w" by (simp only: take_bit_eq_mask)
  then show ?thesis
    by (simp only:) (rule bit_word_eqI, auto simp: bit_simps)
qed

lemma be_step: "push_bit 8 (drop_bit (n + 8) v) OR take_bit 8 (drop_bit n v) = drop_bit n (v :: u64)"
  by (rule bit_word_eqI) (auto simp: bit_simps)

lemma be_top: "take_bit 8 (drop_bit 56 v) = drop_bit 56 (v :: u64)"
  by (rule bit_word_eqI) (auto simp: bit_simps dest: bit_imp_le_length)

lemma read_append_uint64: "read_uint64 (append_uint64 v @ rest) = v"
proof -
  have "read_uint64 (append_uint64 v @ rest) =
    push_bit 8 (push_bit 8 (push_bit 8 (push_bit 8 (push_bit 8 (push_bit 8 (push_bit 8
      (take_bit 8 (drop_bit 56 v)) OR take_bit 8 (drop_bit 48 v)) OR take_bit 8 (drop_bit 40 v))
      OR take_bit 8 (drop_bit 32 v)) OR take_bit 8 (drop_bit 24 v)) OR take_bit 8 (drop_bit 16 v))
      OR take_bit 8 (drop_bit 8 v)) OR take_bit 8 v"
    by (simp add: read_uint64_def append_uint64_def byte_of_u64)
  also have "\<dots> = v"
    using be_step [of 48 v] be_step [of 40 v] be_step [of 32 v] be_step [of 24 v]
      be_step [of 16 v] be_step [of 8 v] be_step [of 0 v]
    by (simp add: be_top)
  finally show ?thesis .
qed

lemma length_append_uint64: "length (append_uint64 v) = 8"
  by (simp add: append_uint64_def)

lemma length_encode: "length (encode st) = 16 + length (storage_root st) + length (code_hash st)"
  by (simp add: encode_def length_append_uint64)

lemma decode_encode: "wf_account st \<Longrightarrow> decode (encode st) = st"
  apply (simp add: decode_def length_encode wf_account_def Let_def)
  apply (simp add: encode_def read_append_uint64 length_append_uint64)
  done

lemma wf_decode: "wf_account (decode d)"
  by (simp add: decode_def wf_account_def empty_account_def empty_hash_def Let_def)

lemma wf_empty_account: "wf_account empty_account"
  by (simp add: wf_account_def empty_account_def empty_hash_def)

lemma decode_encode_decode: "decode (encode (decode d)) = decode d"
  by (rule decode_encode) (rule wf_decode)

lemma decode_Nil: "decode [] = empty_account"
  by (simp add: decode_def)


section \<open>The state manager: reads after writes\<close>

lemma get_account_acct: "get_account blake s addr = acct s (blake (payment_credential addr))"
  by (simp add: get_account_def acct_def trie_get_def)

lemma wf_acct: "wf_account (acct s hk)"
  by (simp add: acct_def wf_decode wf_empty_account split: option.splits)

lemma wf_get_account: "wf_account (get_account blake s addr)"
  by (simp add: get_account_acct wf_acct)

lemma node_value_trie_put:
  "node_value (trie_put blake s k v) hk = (if hk = blake k then Some v else node_value s hk)"
  by (simp add: node_value_def trie_put_def update_conv' split: option.split)

lemma node_value_trie_del:
  "node_value (trie_del blake s k) hk = (if hk = blake k then Some [] else node_value s hk)"
  by (simp add: node_value_def trie_del_def update_conv' split: option.split)

lemma acct_trie_put: "acct (trie_put blake s k v) = (acct s)(blake k := decode v)"
  by (rule ext) (simp add: acct_def node_value_trie_put)

lemma acct_trie_del: "acct (trie_del blake s k) = (acct s)(blake k := empty_account)"
  by (rule ext) (simp add: acct_def node_value_trie_del decode_Nil)

lemma node_value_journal_upd [simp]: "node_value (s\<lparr>journal := j\<rparr>) = node_value s"
  by (rule ext) (simp add: node_value_def split: option.split)

lemma acct_journal_upd [simp]: "acct (s\<lparr>journal := j\<rparr>) = acct s"
  by (rule ext) (simp add: acct_def)

lemma acct_set_account:
  "acct (set_account blake s addr st) = (acct s)(blake (payment_credential addr) := decode (encode st))"
  by (simp add: set_account_def Let_def acct_trie_put)

lemma journal_trie_put [simp]: "journal (trie_put blake s k v) = journal s"
  by (simp add: trie_put_def)
lemma journal_trie_del [simp]: "journal (trie_del blake s k) = journal s"
  by (simp add: trie_del_def)
lemma db_trie_put [simp]: "db (trie_put blake s k v) = db s"
  by (simp add: trie_put_def)
lemma db_trie_del [simp]: "db (trie_del blake s k) = db s"
  by (simp add: trie_del_def)

lemma journal_set_account:
  "journal (set_account blake s addr st) =
     journal s @ [\<lparr>entry_addr = addr,
                   prev_state = map_option decode (node_value s (blake (payment_credential addr)))\<rparr>]"
  by (simp add: set_account_def Let_def trie_get_def)

lemma db_set_account [simp]: "db (set_account blake s addr st) = db s"
  by (simp add: set_account_def Let_def)

lemma get_account_set_account:
  "wf_account st \<Longrightarrow> get_account blake (set_account blake s addr st) addr = st"
  by (simp add: get_account_acct acct_set_account decode_encode)


text \<open>
  C9 (as amended). When the balance is below the amount, \<open>sub_balance\<close> returns with the
  state manager exactly as it was and reports nothing (the C++ function is \<^verbatim>\<open>void\<close>); when the
  balance is at least the amount, the account read back afterwards is the old account with
  its balance decreased by exactly the amount.
\<close>

theorem sub_balance_cases:
  "(get_balance blake s addr < amount \<longrightarrow> sub_balance blake s addr amount = s) \<and>
   (amount \<le> get_balance blake s addr \<longrightarrow>
      get_account blake (sub_balance blake s addr amount) addr =
        (get_account blake s addr)\<lparr>balance := get_balance blake s addr - amount\<rparr>)"
proof -
  have "wf_account ((get_account blake s addr)\<lparr>balance := get_balance blake s addr - amount\<rparr>)"
    using wf_get_account [of blake s addr] by (simp add: wf_account_def)
  then show ?thesis
    by (auto simp: sub_balance_def get_balance_def Let_def get_account_set_account)
qed


theorem sub_balance_cases_witness:
  "sub_balance example_digest (StateManager Map.empty) alice 5 = StateManager Map.empty \<and>
   get_account example_digest
     (sub_balance example_digest
        (set_account example_digest (StateManager Map.empty) alice (empty_account\<lparr>balance := 9\<rparr>))
        alice 5) alice = empty_account\<lparr>balance := 4\<rparr>"
proof -
  let ?s = "set_account example_digest (StateManager Map.empty) alice (empty_account\<lparr>balance := 9\<rparr>)"
  have wf: "wf_account (empty_account\<lparr>balance := 9\<rparr>)"
    using wf_empty_account by (simp add: wf_account_def)
  have b0: "get_balance example_digest (StateManager Map.empty) alice < 5"
    by (simp add: get_balance_def get_account_acct acct_def node_value_def StateManager_def
        empty_account_def)
  have g9: "get_account example_digest ?s alice = empty_account\<lparr>balance := 9\<rparr>"
    by (rule get_account_set_account) (rule wf)
  then have b9: "5 \<le> get_balance example_digest ?s alice"
    by (simp add: get_balance_def)
  show ?thesis
    using sub_balance_cases [of example_digest "StateManager Map.empty" alice 5]
      sub_balance_cases [of example_digest ?s alice 5] b0 b9 g9
    by (simp add: get_balance_def)
qed

text \<open>
  Against C9 as stated: on an empty store the specification's \<open>sub_balance\<close> of 5 fails
  with \<open>BalanceUnderflow\<close>, while the code's call returns normally with the store untouched,
  so its caller sees no error.
\<close>

theorem sub_balance_silent_counterexample:
  "spec_sub_balance example_digest (StateManager Map.empty) alice 5 = Inl BalanceUnderflow \<and>
   sub_balance example_digest (StateManager Map.empty) alice 5 = StateManager Map.empty \<and>
   Inr (sub_balance example_digest (StateManager Map.empty) alice 5) \<noteq>
     spec_sub_balance example_digest (StateManager Map.empty) alice 5"
proof -
  have b0: "balance (get_account example_digest (StateManager Map.empty) alice) = 0"
    by (simp add: get_account_acct acct_def node_value_def StateManager_def empty_account_def)
  then show ?thesis
    by (simp add: spec_sub_balance_def sub_balance_def get_balance_def Let_def)
qed

section \<open>Snapshot and revert\<close>

lemma acct_undo_entry: "acct (undo_entry blake s e) = undo_view blake e (acct s)"
  by (simp add: undo_entry_def undo_view_def Let_def acct_trie_put acct_trie_del split: option.split)

lemma journal_undo_entry [simp]: "journal (undo_entry blake s e) = journal s"
  by (simp add: undo_entry_def Let_def split: option.split)

lemma db_undo_entry [simp]: "db (undo_entry blake s e) = db s"
  by (simp add: undo_entry_def Let_def split: option.split)

lemma revert_char:
  "acct (revert blake s snap) = foldr (undo_view blake) (drop (journal_size snap) (journal s)) (acct s) \<and>
   db (revert blake s snap) = db s \<and>
   journal (revert blake s snap) = take (journal_size snap) (journal s)"
proof (induction blake s snap rule: revert.induct)
  case (1 blake s snap)
  show ?case
  proof (cases "journal_size snap < length (journal s)")
    case True
    let ?s' = "(undo_entry blake s (last (journal s)))\<lparr>journal := butlast (journal s)\<rparr>"
    from True have ne: "journal s \<noteq> []" by auto
    have "drop (journal_size snap) (butlast (journal s) @ [last (journal s)]) =
            drop (journal_size snap) (butlast (journal s)) @ [last (journal s)]"
      using True by simp
    then have dr: "drop (journal_size snap) (journal s) =
                drop (journal_size snap) (butlast (journal s)) @ [last (journal s)]"
      using append_butlast_last_id [OF ne] by simp
    have tk: "take (journal_size snap) (butlast (journal s)) = take (journal_size snap) (journal s)"
      using True by (simp add: take_butlast)
    have rv: "revert blake s snap = revert blake ?s' snap"
      using True by (subst revert.simps) simp
    from "1.IH" [OF True] show ?thesis
      by (simp add: rv dr tk acct_undo_entry)
  next
    case False
    then show ?thesis by (subst (1 2 3) revert.simps) simp
  qed
qed

lemma restores_refl: "restores blake s s"
  by (simp add: restores_def)

lemma restores_set_account:
  assumes "restores blake s s'"
  shows "restores blake s (set_account blake s' addr st)"
proof -
  let ?hk = "blake (payment_credential addr)"
  let ?e = "\<lparr>entry_addr = addr, prev_state = map_option decode (node_value s' ?hk)\<rparr>"
  have "undo_view blake ?e (acct (set_account blake s' addr st)) = acct s'"
    by (rule ext)
      (simp add: undo_view_def acct_set_account acct_def decode_encode_decode split: option.split)
  with assms show ?thesis
    by (simp add: restores_def journal_set_account)
qed

lemma acct_db_update:
  "hd k \<noteq> 0x01 \<Longrightarrow> k \<noteq> [] \<Longrightarrow> acct (s\<lparr>db := (db s)(k \<mapsto> v)\<rparr>) = acct s"
  by (rule ext) (auto simp: acct_def node_value_def split: option.split)

lemma restores_db_update:
  assumes "restores blake s s'" "hd k \<noteq> 0x01" "k \<noteq> []"
  shows "restores blake s (s'\<lparr>db := (db s')(k \<mapsto> v)\<rparr>)"
  using assms by (simp add: restores_def acct_db_update)

lemma restores_apply_mutation:
  assumes "restores blake s s'"
  shows "restores blake s (apply_mutation blake s' m)"
proof (cases m)
  case (SetAccount addr st)
  then show ?thesis using assms by (simp add: restores_set_account)
next
  case (AddBalance addr amount)
  then show ?thesis using assms by (simp add: add_balance_def Let_def restores_set_account)
next
  case (SubBalance addr amount)
  then show ?thesis using assms by (simp add: sub_balance_def Let_def restores_set_account)
next
  case (IncrementNonce addr)
  then show ?thesis using assms by (simp add: increment_nonce_def Let_def restores_set_account)
next
  case (SetStorage addr key val)
  then show ?thesis
    using restores_db_update [OF assms, of "storage_db_key addr key" val]
    by (simp add: set_storage_def storage_db_key_def)
next
  case (SetCode addr code)
  have "restores blake s (s'\<lparr>db := (db s')(code_db_key (blake code) \<mapsto> code)\<rparr>)"
    using restores_db_update [OF assms, of "code_db_key (blake code)" code]
    by (simp add: code_db_key_def)
  then show ?thesis
    using SetCode by (simp add: set_code_def Let_def restores_set_account)
qed

lemma restores_foldl:
  "restores blake s s' \<Longrightarrow> restores blake s (foldl (apply_mutation blake) s' ms)"
  by (induction ms arbitrary: s') (simp_all add: restores_apply_mutation)

lemma db_revert: "db (revert blake s snap) = db s"
  using revert_char by blast


text \<open>
  What a revert does restore. After any sequence of mutations, reverting to a snapshot taken
  before them makes \<open>get_account\<close>, \<open>get_balance\<close> and \<open>get_nonce\<close> return what they returned when the
  snapshot was taken, for every address. Contract storage is not journalled: \<open>get_storage\<close>
  after the revert returns what it returned just before the revert, that is, writes by
  \<open>set_storage\<close> survive it.
\<close>

theorem revert_restores_accounts:
  "get_account blake (revert blake (foldl (apply_mutation blake) s ms) (snapshot s)) addr =
     get_account blake s addr \<and>
   get_balance blake (revert blake (foldl (apply_mutation blake) s ms) (snapshot s)) addr =
     get_balance blake s addr \<and>
   get_nonce blake (revert blake (foldl (apply_mutation blake) s ms) (snapshot s)) addr =
     get_nonce blake s addr \<and>
   get_storage (revert blake (foldl (apply_mutation blake) s ms) (snapshot s)) a key =
     get_storage (foldl (apply_mutation blake) s ms) a key"
proof -
  let ?s' = "foldl (apply_mutation blake) s ms"
  have "restores blake s ?s'" by (rule restores_foldl) (rule restores_refl)
  then have "acct (revert blake ?s' (snapshot s)) = acct s"
    using revert_char [of blake ?s' "snapshot s"] by (simp add: restores_def snapshot_def)
  then show ?thesis
    by (simp add: get_account_acct get_balance_def get_nonce_def get_storage_def db_revert)
qed


text \<open>
  C3, at the failing input: a storage slot written after the snapshot still holds the written
  value after the revert, while it was empty when the snapshot was taken.
\<close>

theorem revert_storage_counterexample:
  "get_storage
     (revert example_digest
        (foldl (apply_mutation example_digest) (StateManager Map.empty)
           [SetStorage alice empty_hash [1]])
        (snapshot (StateManager Map.empty))) alice empty_hash = [1] \<and>
   get_storage (StateManager Map.empty) alice empty_hash = []"
  by (simp add: db_revert get_storage_def set_storage_def StateManager_def)

section \<open>The state root\<close>

lemma commit_nodes_char:
  "commit_nodes blake nodes (puts, deletes, leaf_hashes) =
     (puts @ map (\<lambda>(k, v). (0x01 # k, v)) (filter (\<lambda>(k, v). v \<noteq> []) nodes),
      deletes @ map (\<lambda>(k, v). 0x01 # k) (filter (\<lambda>(k, v). v = []) nodes),
      leaf_hashes @ map (\<lambda>(k, v). blake (k @ v)) (filter (\<lambda>(k, v). v \<noteq> []) nodes))"
  by (induction nodes arbitrary: puts deletes leaf_hashes) (auto simp: Let_def)

text \<open>
  C4 (as amended). The root returned by \<open>commit\<close> is determined by the previous root and the
  entries written since the previous commit: with no non-empty dirty entry it is the
  previous root, otherwise it is the Merkle root over the leaf hashes (digest of hashed key
  and value) of the non-empty dirty entries, in the iteration order of the dirty map.
  Afterwards nothing is dirty and the stored root is the returned one.
\<close>

theorem commit_root_from_dirty_nodes:
  "fst (commit blake merkle_root s) =
     (if filter (\<lambda>(k, v). v \<noteq> []) (dirty_nodes s) = [] then root s
      else merkle_root (map (\<lambda>(k, v). blake (k @ v)) (filter (\<lambda>(k, v). v \<noteq> []) (dirty_nodes s)))) \<and>
   dirty_nodes (snd (commit blake merkle_root s)) = [] \<and>
   root (snd (commit blake merkle_root s)) = fst (commit blake merkle_root s)"
  by (simp add: commit_def trie_commit_def commit_nodes_char Let_def)

lemma foldl_put:
  "foldl (\<lambda>m (k, v). m(k \<mapsto> v)) d ps x = (case map_of (rev ps) x of Some v \<Rightarrow> Some v | None \<Rightarrow> d x)"
  by (induction ps arbitrary: d) (auto simp: map_add_def split: option.splits)

lemma foldl_del:
  "foldl (\<lambda>m k. m(k := None)) m ks x = (if x \<in> set ks then None else m x)"
  by (induction ks arbitrary: m) auto

lemma map_of_rev_distinct:
  assumes "distinct (map fst ps)"
  shows "map_of (rev ps) = map_of ps"
proof -
  have "distinct (map fst (rev ps))"
    using assms by (simp add: rev_map [symmetric])
  then show ?thesis
    using assms by (simp add: map_of_inject_set)
qed

lemma map_of_prefixed: "map_of (map (\<lambda>(k, v). (c # k, v)) ps) (c # hk) = map_of ps hk"
  by (induction ps) auto

lemma map_of_filter_nonempty:
  "distinct (map fst nodes) \<Longrightarrow>
   map_of (filter (\<lambda>(k, v). v \<noteq> []) nodes) hk =
     (case map_of nodes hk of Some v \<Rightarrow> if v \<noteq> [] then Some v else None | None \<Rightarrow> None)"
proof (induction nodes)
  case Nil
  then show ?case by simp
next
  case (Cons a nodes)
  obtain k v where a: "a = (k, v)" by (cases a)
  show ?case
  proof (cases "k = hk")
    case True
    with Cons.prems a have "hk \<notin> fst ` set nodes" by auto
    then have "hk \<notin> fst ` set (filter (\<lambda>(k, v). v \<noteq> []) nodes)" by auto
    then have "map_of (filter (\<lambda>(k, v). v \<noteq> []) nodes) hk = None"
      by (simp add: map_of_eq_None_iff)
    with True a show ?thesis by simp
  next
    case False
    with Cons a show ?thesis by simp
  qed
qed

lemma in_deletes_iff:
  "distinct (map fst nodes) \<Longrightarrow>
   (c # hk) \<in> set (map (\<lambda>(k, v). c # k) (filter (\<lambda>(k, v). v = []) nodes)) \<longleftrightarrow>
     map_of nodes hk = Some []"
  by auto

lemma distinct_filter_fst: "distinct (map fst ps) \<Longrightarrow> distinct (map fst (filter P ps))"
  by (induction ps) auto

lemma node_value_commit:
  assumes "distinct (map fst (dirty_nodes s))"
  shows "node_value (snd (commit blake mr s)) hk =
           (case map_of (dirty_nodes s) hk of
              Some v \<Rightarrow> if v \<noteq> [] then Some v else None
            | None \<Rightarrow> db s (0x01 # hk))"
proof -
  let ?P = "filter (\<lambda>(k, v). v \<noteq> []) (dirty_nodes s)"
  have "map_of (rev (map (\<lambda>(k, v). (0x01 # k, v)) ?P)) (0x01 # hk) = map_of (rev ?P) hk"
    by (simp add: rev_map map_of_prefixed)
  also have "\<dots> = map_of ?P hk"
    using assms by (simp add: map_of_rev_distinct distinct_filter_fst)
  finally have puts: "map_of (rev (map (\<lambda>(k, v). (0x01 # k, v)) ?P)) (0x01 # hk) =
      (case map_of (dirty_nodes s) hk of Some v \<Rightarrow> if v \<noteq> [] then Some v else None | None \<Rightarrow> None)"
    using assms by (simp add: map_of_filter_nonempty)
  show ?thesis
    using in_deletes_iff [OF assms, of 1 hk]
    by (simp add: commit_def trie_commit_def commit_nodes_char Let_def node_value_def
        write_batch_def foldl_del foldl_put puts root_key_def split: option.split)
qed

lemma acct_commit:
  assumes "distinct (map fst (dirty_nodes s))"
  shows "acct (snd (commit blake mr s)) = acct s"
proof (rule ext)
  fix hk
  show "acct (snd (commit blake mr s)) hk = acct s hk"
    unfolding acct_def node_value_commit [OF assms]
    by (simp add: node_value_def decode_Nil split: option.split)
qed

lemma distinct_dirty_set_account:
  "distinct (map fst (dirty_nodes s)) \<Longrightarrow>
   distinct (map fst (dirty_nodes (set_account blake s addr st)))"
  by (simp add: set_account_def trie_put_def Let_def distinct_update)

lemma roots_differ: "fst alice_then_bob \<noteq> fst bob_then_alice"
  by code_simp

lemma acct_write_and_commit:
  "dirty_nodes s = [] \<Longrightarrow>
   acct (snd (write_and_commit s addr st)) =
     (acct s)(example_digest (payment_credential addr) := decode (encode st)) \<and>
   dirty_nodes (snd (write_and_commit s addr st)) = []"
  unfolding write_and_commit_def
  by (simp add: acct_commit distinct_dirty_set_account acct_set_account commit_root_from_dirty_nodes)

text \<open>
  Against C4 as stated: writing alice then bob, or bob then alice, each write followed by
  a commit, leaves the same account mapping, but the two final commits return different
  roots (each is the root over the last written account only).
\<close>

theorem commit_history_counterexample:
  "get_account example_digest (snd alice_then_bob) = get_account example_digest (snd bob_then_alice) \<and>
   fst alice_then_bob \<noteq> fst bob_then_alice"
proof -
  have ne: "example_digest (payment_credential alice) \<noteq> example_digest (payment_credential bob)"
    by code_simp
  have d0: "dirty_nodes (StateManager Map.empty) = []"
    by (simp add: StateManager_def)
  have "acct (snd alice_then_bob) = acct (snd bob_then_alice)"
    unfolding alice_then_bob_def bob_then_alice_def
    using ne by (simp add: acct_write_and_commit d0 fun_upd_twist)
  then have "get_account example_digest (snd alice_then_bob) =
             get_account example_digest (snd bob_then_alice)"
    by (intro ext) (simp add: get_account_acct)
  then show ?thesis using roots_differ by simp
qed


section \<open>Evaluating the state manager on the examples\<close>

lemma get_account_set_account_other:
  "blake (payment_credential b) \<noteq> blake (payment_credential a) \<Longrightarrow>
   get_account blake (set_account blake s a st) b = get_account blake s b"
  by (simp add: get_account_acct acct_set_account)

lemma get_account_db_update:
  "hd k \<noteq> 0x01 \<Longrightarrow> k \<noteq> [] \<Longrightarrow> get_account blake (s\<lparr>db := (db s)(k \<mapsto> v)\<rparr>) = get_account blake s"
  by (rule ext) (simp add: get_account_acct acct_db_update)

lemma get_account_set_storage [simp]:
  "get_account blake (set_storage s a k v) = get_account blake s"
  by (simp add: set_storage_def storage_db_key_def get_account_db_update)

lemma get_account_empty_store [simp]:
  "get_account blake (StateManager Map.empty) a = empty_account"
  by (simp add: get_account_acct acct_def node_value_def StateManager_def)

lemma wf_account_updates [simp]:
  "wf_account (st\<lparr>balance := b\<rparr>) = wf_account st"
  "wf_account (st\<lparr>nonce := n\<rparr>) = wf_account st"
  "wf_account (st\<lparr>code_hash := h\<rparr>) = (length (storage_root st) = 32 \<and> length h = 32)"
  by (simp_all add: wf_account_def)

lemma length_example_digest [simp]: "length (example_digest bs) = 32"
  by (simp add: example_digest_def)

lemma example_keys_distinct:
  "example_digest (payment_credential alice) \<noteq> example_digest (payment_credential bob)"
  "example_digest (payment_credential bob) \<noteq> example_digest (payment_credential alice)"
  "example_digest (payment_credential alice) \<noteq> example_digest (payment_credential carol)"
  "example_digest (payment_credential carol) \<noteq> example_digest (payment_credential alice)"
  "example_digest (payment_credential bob) \<noteq> example_digest (payment_credential carol)"
  "example_digest (payment_credential carol) \<noteq> example_digest (payment_credential bob)"
  by code_simp+

lemma db_simps [simp]:
  "db (add_balance blake s a v) = db s"
  "db (sub_balance blake s a v) = db s"
  "db (increment_nonce blake s a) = db s"
  "db (set_storage s a k val) = (db s)(storage_db_key a k \<mapsto> val)"
  "db (set_code blake s a c) = (db s)(code_db_key (blake c) \<mapsto> c)"
  by (simp_all add: add_balance_def sub_balance_def increment_nonce_def set_storage_def
      set_code_def Let_def)

lemma get_storage_simps [simp]:
  "get_storage (add_balance blake s a v) = get_storage s"
  "get_storage (sub_balance blake s a v) = get_storage s"
  "get_storage (increment_nonce blake s a) = get_storage s"
  by (intro ext, simp add: get_storage_def)+

lemma get_account_set_account_if:
  "get_account blake (set_account blake s a st) b =
     (if blake (payment_credential b) = blake (payment_credential a)
      then decode (encode st) else get_account blake s b)"
  by (simp add: get_account_acct acct_set_account)

lemma get_account_set_code:
  assumes len: "length (blake c) = 32"
  shows "get_account blake (set_code blake s a c) b =
     (if blake (payment_credential b) = blake (payment_credential a)
      then (get_account blake s a)\<lparr>code_hash := blake c\<rparr> else get_account blake s b)"
proof -
  let ?s1 = "s\<lparr>db := (db s)(code_db_key (blake c) \<mapsto> c)\<rparr>"
  have g: "get_account blake ?s1 = get_account blake s"
    by (rule get_account_db_update) (simp_all add: code_db_key_def)
  have wf: "wf_account ((get_account blake s a)\<lparr>code_hash := blake c\<rparr>)"
    using wf_get_account [of blake s a] len by (simp add: wf_account_def)
  have "set_code blake s a c =
          set_account blake ?s1 a ((get_account blake s a)\<lparr>code_hash := blake c\<rparr>)"
    by (simp add: set_code_def Let_def g)
  then show ?thesis
    by (simp only: get_account_set_account_if decode_encode [OF wf] g)
qed

lemma funded_wf [simp]: "wf_account (funded b)"
  by (simp add: funded_def wf_empty_account)

lemma length_empty_hash [simp]: "length empty_hash = 32"
  by (simp add: empty_hash_def)

lemma account_fields [simp]:
  "nonce empty_account = 0" "balance empty_account = 0"
  "storage_root empty_account = empty_hash" "code_hash empty_account = empty_hash"
  "nonce (funded b) = 0" "balance (funded b) = b"
  "storage_root (funded b) = empty_hash" "code_hash (funded b) = empty_hash"
  by (simp_all add: empty_account_def funded_def)

lemmas store_eval =
  get_balance_def get_nonce_def add_balance_def sub_balance_def increment_nonce_def Let_def
  get_account_set_account get_account_set_account_other wf_get_account wf_empty_account
  example_keys_distinct get_account_set_code

lemma contract_accounts:
  "get_account example_digest contract_store alice = funded 1000000"
  "get_account example_digest contract_store bob = empty_account\<lparr>code_hash := example_digest revert_code\<rparr>"
  by (simp_all add: contract_store_def funded_store_def store_eval)

lemma contract_carol: "get_account example_digest contract_store carol = empty_account"
  by (simp add: contract_store_def funded_store_def store_eval)



section \<open>Transaction validation\<close>

lemma bob_not_zero: "payment_credential bob \<noteq> replicate 28 0"
  by code_simp

lemma hash_signature [simp]: "hash blake (tx\<lparr>signature := sg\<rparr>) = hash blake tx"
  by (simp add: hash_def hash_preimage_def)

lemma validate_signature [simp]:
  "validate blake sm (tx\<lparr>signature := sg\<rparr>) bf = validate blake sm tx bf"
  by (simp add: validate_def intrinsic_gas_def split del: if_split cong: if_cong)

lemma execute_transaction_signature [simp]:
  "execute_transaction blake pcs sm (tx\<lparr>signature := sg\<rparr>) ctx =
   execute_transaction blake pcs sm tx ctx"
  by (simp add: execute_transaction_def effective_gas_price_def split del: if_split
      cong: if_cong option.case_cong)

lemma process_ignores_signature:
  "process blake pcs sm (tx\<lparr>signature := sg\<rparr>) ctx = process blake pcs sm tx ctx"
  by (simp add: process_def split del: if_split cong: if_cong option.case_cong)

text \<open>
  The cases of \<open>process\<close> with the cost in the 64-bit arithmetic of the code, and the
  comparison with the cost as a number when it does not wrap around.
\<close>

lemma process_cases:
  "(tx_nonce tx \<noteq> get_nonce blake sm (tx_from tx) \<longrightarrow>
      process blake pcs sm tx ctx = Some (Inl ''Invalid nonce'', sm)) \<and>
   (tx_nonce tx = get_nonce blake sm (tx_from tx) \<and>
    get_balance blake sm (tx_from tx) < tx_value tx + tx_gas_limit tx * max_fee_per_gas tx \<longrightarrow>
      process blake pcs sm tx ctx = Some (Inl ''Insufficient balance'', sm)) \<and>
   (tx_nonce tx = get_nonce blake sm (tx_from tx) \<and>
    tx_value tx + tx_gas_limit tx * max_fee_per_gas tx \<le> get_balance blake sm (tx_from tx) \<and>
    tx_gas_limit tx < intrinsic_gas tx \<longrightarrow>
      process blake pcs sm tx ctx = Some (Inl ''Gas limit too low'', sm)) \<and>
   (tx_nonce tx = get_nonce blake sm (tx_from tx) \<and>
    tx_value tx + tx_gas_limit tx * max_fee_per_gas tx \<le> get_balance blake sm (tx_from tx) \<and>
    intrinsic_gas tx \<le> tx_gas_limit tx \<and> max_fee_per_gas tx < base_fee ctx \<longrightarrow>
      process blake pcs sm tx ctx = Some (Inl ''Max fee below base fee'', sm)) \<and>
   (tx_nonce tx = get_nonce blake sm (tx_from tx) \<and>
    tx_value tx + tx_gas_limit tx * max_fee_per_gas tx \<le> get_balance blake sm (tx_from tx) \<and>
    intrinsic_gas tx \<le> tx_gas_limit tx \<and> base_fee ctx \<le> max_fee_per_gas tx \<longrightarrow>
      process blake pcs sm tx ctx =
        map_option (\<lambda>(r, sm'). (Inr (receipt_of blake tx r), sm'))
          (execute_transaction blake pcs sm tx ctx))"
  by (auto simp: process_def validate_def Let_def receipt_of_def split: option.splits)

lemma required_cost_word:
  assumes "required_cost tx < 2 ^ 64"
  shows "unat (tx_value tx + tx_gas_limit tx * max_fee_per_gas tx) = required_cost tx"
proof -
  from assms have "unat (tx_gas_limit tx) * unat (max_fee_per_gas tx) < 2 ^ LENGTH(64)"
    by (simp add: required_cost_def)
  then have m: "unat (tx_gas_limit tx * max_fee_per_gas tx) =
                unat (tx_gas_limit tx) * unat (max_fee_per_gas tx)"
    by (simp only: unat_mult_lem)
  with assms have "unat (tx_value tx) + unat (tx_gas_limit tx * max_fee_per_gas tx)
                     < 2 ^ LENGTH(64)"
    by (simp add: required_cost_def)
  then have "unat (tx_value tx + tx_gas_limit tx * max_fee_per_gas tx) =
             unat (tx_value tx) + unat (tx_gas_limit tx * max_fee_per_gas tx)"
    by (simp only: unat_add_lem)
  with m show ?thesis by (simp add: required_cost_def)
qed

lemma required_cost_check:
  fixes bal :: u64
  assumes "required_cost tx < 2 ^ 64"
  shows "bal < tx_value tx + tx_gas_limit tx * max_fee_per_gas tx \<longleftrightarrow>
         unat bal < required_cost tx"
  by (simp add: word_less_nat_alt required_cost_word [OF assms])

lemma required_cost_covered:
  fixes bal :: u64
  assumes "required_cost tx \<le> unat bal"
  shows "required_cost tx < 2 ^ 64"
    and "tx_value tx + tx_gas_limit tx * max_fee_per_gas tx \<le> bal"
proof -
  have "unat bal < 2 ^ LENGTH(64)" by (rule unsigned_less)
  with assms show c: "required_cost tx < 2 ^ 64" by simp
  from assms show "tx_value tx + tx_gas_limit tx * max_fee_per_gas tx \<le> bal"
    by (simp add: word_le_nat_alt required_cost_word [OF c])
qed

text \<open>
  C1 (as amended). \<open>process\<close> validates in the order nonce, balance, gas limit, fee: it
  returns ``Invalid nonce'' when the nonce differs from the sender's; else ``Insufficient
  balance'' when the balance is below value plus gas limit times maximal fee (that cost
  being below \<open>2\<^sup>6\<^sup>4\<close>); else, the balance covering that cost, ``Gas limit too low'' when
  the gas limit is below the intrinsic gas; else ``Max fee below base fee'' when the
  maximal fee is below the base fee; in each case the state is untouched. When the four
  checks pass the transaction is executed. The signature is not looked at: \<open>process\<close> gives
  the same result whatever the signature field holds.
\<close>

theorem process_validation_order:
  "(tx_nonce tx \<noteq> get_nonce blake sm (tx_from tx) \<longrightarrow>
      process blake pcs sm tx ctx = Some (Inl ''Invalid nonce'', sm)) \<and>
   (tx_nonce tx = get_nonce blake sm (tx_from tx) \<and> required_cost tx < 2 ^ 64 \<and>
    unat (get_balance blake sm (tx_from tx)) < required_cost tx \<longrightarrow>
      process blake pcs sm tx ctx = Some (Inl ''Insufficient balance'', sm)) \<and>
   (tx_nonce tx = get_nonce blake sm (tx_from tx) \<and>
    required_cost tx \<le> unat (get_balance blake sm (tx_from tx)) \<and>
    tx_gas_limit tx < intrinsic_gas tx \<longrightarrow>
      process blake pcs sm tx ctx = Some (Inl ''Gas limit too low'', sm)) \<and>
   (tx_nonce tx = get_nonce blake sm (tx_from tx) \<and>
    required_cost tx \<le> unat (get_balance blake sm (tx_from tx)) \<and>
    intrinsic_gas tx \<le> tx_gas_limit tx \<and> max_fee_per_gas tx < base_fee ctx \<longrightarrow>
      process blake pcs sm tx ctx = Some (Inl ''Max fee below base fee'', sm)) \<and>
   (tx_nonce tx = get_nonce blake sm (tx_from tx) \<and>
    required_cost tx \<le> unat (get_balance blake sm (tx_from tx)) \<and>
    intrinsic_gas tx \<le> tx_gas_limit tx \<and> base_fee ctx \<le> max_fee_per_gas tx \<longrightarrow>
      process blake pcs sm tx ctx =
        map_option (\<lambda>(r, sm'). (Inr (receipt_of blake tx r), sm'))
          (execute_transaction blake pcs sm tx ctx)) \<and>
   process blake pcs sm (tx\<lparr>signature := sg\<rparr>) ctx = process blake pcs sm tx ctx"
  using process_cases [where tx = tx and blake = blake and sm = sm and pcs = pcs and ctx = ctx]
    required_cost_check [where tx = tx and bal = "get_balance blake sm (tx_from tx)"]
    required_cost_covered(2) [where tx = tx and bal = "get_balance blake sm (tx_from tx)"]
    process_ignores_signature [where tx = tx and blake = blake and sm = sm and pcs = pcs
      and ctx = ctx and sg = sg]
  by blast

lemma intrinsic_gas_transfer [simp]: "intrinsic_gas (transfer v n f) = 21000"
  using bob_not_zero by (simp add: intrinsic_gas_def transfer_def)

lemma funded_accounts:
  "get_account example_digest funded_store alice = funded 1000000"
  "get_account example_digest funded_store bob = empty_account"
  "get_account example_digest funded_store carol = empty_account"
  by (simp_all add: funded_store_def store_eval)

lemma transfer_fields [simp]:
  "tx_from (transfer v n f) = alice" "tx_to (transfer v n f) = bob"
  "tx_value (transfer v n f) = v" "tx_nonce (transfer v n f) = n"
  "tx_gas_limit (transfer v n f) = 21000" "max_fee_per_gas (transfer v n f) = f"
  "max_priority_fee_per_gas (transfer v n f) = 0" "tx_data (transfer v n f) = []"
  "signature (transfer v n f) = replicate 64 0"
  by (simp_all add: transfer_def)

lemma context_fields [simp]:
  "base_fee (example_context bf) = bf" "coinbase (example_context bf) = carol"
  by (simp_all add: example_context_def)

lemma funded_store_code: "get_code example_digest s bob = [] "
  if "db s = Map.empty" for s
  using that by (simp add: get_code_def)

lemma db_funded_store [simp]: "db funded_store = Map.empty"
  by (simp add: funded_store_def StateManager_def)

lemma transfer_executes:
  "execute_transaction example_digest Map.empty funded_store (transfer 5 0 7) (example_context 7) =
     Some (ExecutionResult\<lparr>success := True, gas_used := 21000\<rparr>,
       add_balance example_digest
         (add_balance example_digest
            (add_balance example_digest
               (sub_balance example_digest
                  (increment_nonce example_digest funded_store alice) alice 147005) bob 5)
            alice 0) carol 147000)"
  using bob_not_zero
  by (simp add: execute_transaction_def effective_gas_price_def funded_store_code
      store_eval funded_accounts)

theorem process_validation_order_witness:
  "process example_digest Map.empty funded_store (transfer 5 1 7) (example_context 7) =
     Some (Inl ''Invalid nonce'', funded_store) \<and>
   process example_digest Map.empty funded_store (transfer 2000000 0 7) (example_context 7) =
     Some (Inl ''Insufficient balance'', funded_store) \<and>
   process example_digest Map.empty funded_store ((transfer 5 0 7)\<lparr>tx_gas_limit := 20000\<rparr>)
       (example_context 7) =
     Some (Inl ''Gas limit too low'', funded_store) \<and>
   process example_digest Map.empty funded_store (transfer 5 0 6) (example_context 7) =
     Some (Inl ''Max fee below base fee'', funded_store) \<and>
   process example_digest Map.empty funded_store (transfer 5 0 7) (example_context 7) =
     map_option (\<lambda>(r, sm'). (Inr (receipt_of example_digest (transfer 5 0 7) r), sm'))
       (execute_transaction example_digest Map.empty funded_store (transfer 5 0 7)
          (example_context 7))"
proof -
  have ig: "intrinsic_gas ((transfer 5 0 7)\<lparr>tx_gas_limit := 20000\<rparr>) = 21000"
    using bob_not_zero by (simp add: intrinsic_gas_def transfer_def)
  have cost: "required_cost (transfer v n f) = unat v + 21000 * unat f" for v n f
    by (simp add: required_cost_def)
  have cost': "required_cost ((transfer 5 0 7)\<lparr>tx_gas_limit := 20000\<rparr>) = 140005"
    by (simp add: required_cost_def)
  show ?thesis
    using
      process_validation_order [where tx = "transfer 5 1 7" and blake = example_digest
        and sm = funded_store and pcs = Map.empty and ctx = "example_context 7"]
      process_validation_order [where tx = "transfer 2000000 0 7" and blake = example_digest
        and sm = funded_store and pcs = Map.empty and ctx = "example_context 7"]
      process_validation_order [where tx = "(transfer 5 0 7)\<lparr>tx_gas_limit := 20000\<rparr>"
        and blake = example_digest and sm = funded_store and pcs = Map.empty
        and ctx = "example_context 7"]
      process_validation_order [where tx = "transfer 5 0 6" and blake = example_digest
        and sm = funded_store and pcs = Map.empty and ctx = "example_context 7"]
      process_validation_order [where tx = "transfer 5 0 7" and blake = example_digest
        and sm = funded_store and pcs = Map.empty and ctx = "example_context 7"]
    by (simp add: ig cost cost' store_eval funded_accounts)
qed

text \<open>
  Against C1 as stated. A transfer whose fee is below the base fee and whose cost exceeds
  the balance fails the specification's second step (\<open>ErrFeeTooLow\<close>), but \<open>process\<close> reports
  ``Insufficient balance''. A well-funded transfer with an all-zero signature, which the
  signature check rejects, fails the specification's fifth step (\<open>ErrBadSignature\<close>), but
  \<open>process\<close> executes it: the sender's nonce becomes 1 and bob receives the value.
\<close>

theorem process_order_counterexample:
  "spec_validate example_digest reject_all funded_store (transfer 2000000 0 6) (example_context 7) =
     Some ErrFeeTooLow \<and>
   process example_digest Map.empty funded_store (transfer 2000000 0 6) (example_context 7) =
     Some (Inl ''Insufficient balance'', funded_store) \<and>
   spec_validate example_digest reject_all funded_store (transfer 5 0 7) (example_context 7) =
     Some ErrBadSignature \<and>
   (case process example_digest Map.empty funded_store (transfer 5 0 7) (example_context 7) of
      Some (Inr r, sm') \<Rightarrow>
        pr_success r \<and> get_nonce example_digest sm' alice = 1 \<and>
        get_balance example_digest sm' bob = 5
    | _ \<Rightarrow> False)"
proof -
  have sig: "\<not> verify_signature example_digest reject_all (transfer 5 0 7)"
    by (simp add: verify_signature_def reject_all_def Let_def all_ff_iff)
  have a: "spec_validate example_digest reject_all funded_store (transfer 2000000 0 6)
             (example_context 7) = Some ErrFeeTooLow"
    by (simp add: spec_validate_def store_eval funded_accounts)
  have b: "process example_digest Map.empty funded_store (transfer 2000000 0 6) (example_context 7) =
             Some (Inl ''Insufficient balance'', funded_store)"
    by (simp add: process_def validate_def store_eval funded_accounts)
  have c: "spec_validate example_digest reject_all funded_store (transfer 5 0 7)
             (example_context 7) = Some ErrBadSignature"
    using sig by (simp add: spec_validate_def store_eval funded_accounts)
  have d: "(case process example_digest Map.empty funded_store (transfer 5 0 7) (example_context 7) of
      Some (Inr r, sm') \<Rightarrow>
        pr_success r \<and> get_nonce example_digest sm' alice = 1 \<and>
        get_balance example_digest sm' bob = 5
    | _ \<Rightarrow> False)"
    by (simp add: process_def validate_def transfer_executes ExecutionResult_def
        store_eval funded_accounts)
  from a b c d show ?thesis by simp
qed


section \<open>A failed call\<close>

lemma pushes:
  "push_value revert_code 0 1 = [0, 0, 0, 1]"
  "push_value revert_code 2 1 = [0, 0, 0, 0]"
  "push_value revert_code 5 1 = [0, 0, 0, 0]"
  "push_value revert_code 7 1 = [0, 0, 0, 0]"
  by code_simp+

lemma revert_code_nth:
  "length revert_code = 10"
  "revert_code ! 0 = 0x60" "revert_code ! 2 = 0x60" "revert_code ! 4 = 0x55"
  "revert_code ! 5 = 0x60" "revert_code ! 7 = 0x60" "revert_code ! 9 = 0xFD"
  by (simp_all add: revert_code_def)

lemma opcode_costs:
  "get_opcode_gas_cost 0x60 = 3" "get_opcode_gas_cost 0x55 = 20000" "get_opcode_gas_cost 0xFD = 0"
  by (simp_all add: get_opcode_gas_cost_def)

lemma run_revert_code:
  "run_code bob revert_code False 100000
     \<lparr>memory = [], stack = [], gas_remaining = 100000, pc = 0, stopped = False,
      reverted = False, st_return_data = []\<rparr> [] sm =
   Some (ExecutionResult\<lparr>gas_used := 20012\<rparr>,
         set_storage sm bob (word_bytes [0, 0, 0, 0]) (word_bytes [0, 0, 0, 1]))"
  apply (simp add: run_code.simps revert_code_nth pushes opcode_costs exec_opcode_def
      return_window_def ExecutionResult_def Let_def del: One_nat_def)
  apply simp
  done

lemma example_effective_price: "effective_gas_price call_tx 7 = 7"
  by (simp add: effective_gas_price_def call_tx_def transfer_def)

lemma call_tx_fields:
  "tx_from call_tx = alice" "tx_to call_tx = bob" "tx_value call_tx = 0"
  "tx_gas_limit call_tx = 100000" "tx_data call_tx = []"
  by (simp_all add: call_tx_def transfer_def)

lemma revert_code_nonempty: "revert_code \<noteq> []"
  by (simp add: revert_code_def)

lemma call_code:
  "get_code example_digest
     (add_balance example_digest
        (sub_balance example_digest (increment_nonce example_digest contract_store alice) alice 700000)
        bob 0) bob = revert_code"
  by (simp add: get_code_def contract_store_def funded_store_def store_eval)

lemma word_bytes_zero: "word_bytes [0, 0, 0, 0] = empty_hash"
  by code_simp

lemma storage_key_eq: "storage_db_key a k = storage_db_key a k' \<longleftrightarrow> k = k'"
  by (simp add: storage_db_key_def)

lemma contract_store_storage: "db contract_store (storage_db_key bob k) = None"
  by (simp add: contract_store_def funded_store_def StateManager_def
      storage_db_key_def code_db_key_def)

text \<open>
  C2, at the failing input. Alice calls the contract at bob, whose code stores 1 in slot 0
  and then reverts. The execution fails after 20012 gas, and the transaction ends with the
  slot still holding the stored word, although it was empty before: nothing rolls the
  failed frame back. Alice's nonce is 1, she has paid for the gas used, and the coinbase
  has received that payment.
\<close>

theorem failed_call_keeps_storage:
  "(case execute_transaction example_digest Map.empty contract_store call_tx (example_context 7) of
      None \<Rightarrow> False
    | Some (r, sm') \<Rightarrow>
        \<not> success r \<and> gas_used r = 20012 \<and>
        get_storage contract_store bob empty_hash = [] \<and>
        get_storage sm' bob empty_hash = word_bytes [0, 0, 0, 1] \<and>
        get_nonce example_digest sm' alice = 1 \<and>
        get_balance example_digest sm' alice = 859916 \<and>
        get_balance example_digest sm' carol = 140084)"
proof -
  have bal: "get_balance example_digest (increment_nonce example_digest contract_store alice) alice = 1000000"
    by (simp add: store_eval contract_accounts)
  have ex: "execute_transaction example_digest Map.empty contract_store call_tx (example_context 7) =
    Some (ExecutionResult\<lparr>gas_used := 20012\<rparr>,
      add_balance example_digest
        (add_balance example_digest
           (set_storage
              (add_balance example_digest
                 (sub_balance example_digest
                    (increment_nonce example_digest contract_store alice) alice 700000) bob 0)
              bob empty_hash (word_bytes [0, 0, 0, 1]))
           alice 559916)
        carol 140084)"
    by (simp add: execute_transaction_def call_tx_fields example_effective_price
        example_context_def bob_not_zero call_code execute_code_def revert_code_nonempty
        run_revert_code bal word_bytes_zero ExecutionResult_def)
  show ?thesis
    unfolding ex
    by (simp add: ExecutionResult_def contract_store_storage get_storage_def storage_key_eq
        store_eval contract_accounts contract_carol)
qed


section \<open>The mempool: admission\<close>

lemma add_transaction_result:
  "fst (add_transaction blake m tx b) =
     (if map_of (by_hash m) (hash blake tx) \<noteq> None then AlreadyKnown
      else if b < tx_value tx + tx_gas_limit tx * max_fee_per_gas tx then InsufficientFunds
      else if max_size m \<le> length (by_hash m) then PoolFull
      else case slot_of m tx of
             None \<Rightarrow> Added
           | Some existing \<Rightarrow>
               if max_fee_per_gas tx \<le> max_fee_per_gas existing * 110 div 100 then Underpriced
               else Replaced)"
  by (simp add: add_transaction_def slot_of_def Let_def split: option.split)

text \<open>
  C5, at the failing input. The pool holds a transaction of alice at nonce 0 with maximal
  fee 1000000000. A second transaction for the same nonce whose maximal fee is exactly
  1.10 times that, 1100000000, is refused as \<open>Underpriced\<close>; one unit more is \<open>Replaced\<close>.
\<close>

theorem replacement_at_exact_bump:
  "fst (add_transaction example_digest pool_one (transfer 5 0 1100000000) ample) = Underpriced \<and>
   fst (add_transaction example_digest pool_one (transfer 5 0 1100000001) ample) = Replaced"
  by code_simp

text \<open>What a pool holds after a transaction has been added.\<close>

lemma map_put_mem: "(k, v) \<in> set (map_put k v xs)"
  by (induction xs) auto

lemma length_update_new: "map_of xs k = None \<Longrightarrow> length (AList.update k v xs) = Suc (length xs)"
  by (induction xs) (auto split: if_splits)

lemma add_transaction_added:
  assumes fresh: "map_of (by_hash m) (hash blake tx) = None"
    and funds: "tx_value tx + tx_gas_limit tx * max_fee_per_gas tx \<le> b"
    and space: "length (by_hash m) < max_size m"
    and free: "slot_of m tx = None"
  shows "fst (add_transaction blake m tx b) = Added"
    and "get_transaction (snd (add_transaction blake m tx b)) (hash blake tx) = Some tx"
    and "tx \<in> set (get_pending_for (snd (add_transaction blake m tx b)) (tx_from tx))"
    and "size_pool (snd (add_transaction blake m tx b)) = size_pool m + 1"
proof -
  let ?stxs = "case by_sender m (to_hex (tx_from tx)) of
                 Some st \<Rightarrow> st | None \<Rightarrow> \<lparr>by_nonce = [], pending_nonce = 0\<rparr>"
  from free have none: "map_of (by_nonce ?stxs) (tx_nonce tx) = None"
    by (simp add: slot_of_def split: option.splits)
  from fresh funds space have guards:
    "\<not> map_of (by_hash m) (hash blake tx) \<noteq> None"
    "\<not> b < tx_value tx + tx_gas_limit tx * max_fee_per_gas tx"
    "\<not> max_size m \<le> length (by_hash m)"
    by simp_all
  show "fst (add_transaction blake m tx b) = Added"
    using guards none by (simp add: add_transaction_def Let_def)
  show "get_transaction (snd (add_transaction blake m tx b)) (hash blake tx) = Some tx"
    using guards none by (simp add: add_transaction_def Let_def get_transaction_def update_conv')
  have "tx \<in> snd ` set (map_put (tx_nonce tx) tx (by_nonce ?stxs))"
    using map_put_mem [of "tx_nonce tx" tx "by_nonce ?stxs"] by force
  then show "tx \<in> set (get_pending_for (snd (add_transaction blake m tx b)) (tx_from tx))"
    using guards none by (simp add: add_transaction_def Let_def get_pending_for_def)
  show "size_pool (snd (add_transaction blake m tx b)) = size_pool m + 1"
    using guards none fresh
    by (simp add: add_transaction_def Let_def size_pool_def length_update_new)
qed

text \<open>
  C10 (as amended). The result of \<open>add_transaction\<close> is never \<open>NonceTooLow\<close>, \<open>NonceTooHigh\<close>
  or \<open>Invalid\<close>. A transaction whose hash is not pooled and that passes the balance and
  capacity checks is admitted whatever its nonce, provided no pooled transaction of the
  same sender has that nonce: the result is \<open>Added\<close>, and afterwards \<open>get_transaction\<close>
  returns it under its hash, \<open>get_pending_for\<close> lists it for its sender and the pool has
  grown by one. When a pooled transaction of the same sender has that nonce, the result is
  \<open>Replaced\<close> or \<open>Underpriced\<close>.
\<close>

theorem add_transaction_no_nonce_check:
  "fst (add_transaction blake m tx b) \<in>
     {Added, Replaced, AlreadyKnown, Underpriced, InsufficientFunds, PoolFull} \<and>
   (map_of (by_hash m) (hash blake tx) = None \<and>
    tx_value tx + tx_gas_limit tx * max_fee_per_gas tx \<le> b \<and>
    length (by_hash m) < max_size m \<longrightarrow>
      (slot_of m tx = None \<longrightarrow>
         fst (add_transaction blake m tx b) = Added \<and>
         get_transaction (snd (add_transaction blake m tx b)) (hash blake tx) = Some tx \<and>
         tx \<in> set (get_pending_for (snd (add_transaction blake m tx b)) (tx_from tx)) \<and>
         size_pool (snd (add_transaction blake m tx b)) = size_pool m + 1) \<and>
      (slot_of m tx \<noteq> None \<longrightarrow>
         fst (add_transaction blake m tx b) \<in> {Replaced, Underpriced}))"
proof -
  have "fst (add_transaction blake m tx b) \<in>
     {Added, Replaced, AlreadyKnown, Underpriced, InsufficientFunds, PoolFull}"
    by (auto simp: add_transaction_result split: option.splits)
  moreover have "slot_of m tx \<noteq> None \<longrightarrow>
         fst (add_transaction blake m tx b) \<in> {Replaced, Underpriced}"
    if "map_of (by_hash m) (hash blake tx) = None"
       "tx_value tx + tx_gas_limit tx * max_fee_per_gas tx \<le> b"
       "length (by_hash m) < max_size m"
    using that by (auto simp: add_transaction_result split: option.splits)
  ultimately show ?thesis
    using add_transaction_added [of m blake tx b] by blast
qed

theorem add_transaction_no_nonce_check_witness:
  "fst (add_transaction example_digest pool_one (transfer 5 7 1) ample) = Added \<and>
   get_transaction (snd (add_transaction example_digest pool_one (transfer 5 7 1) ample))
     (hash example_digest (transfer 5 7 1)) = Some (transfer 5 7 1) \<and>
   transfer 5 7 1 \<in>
     set (get_pending_for (snd (add_transaction example_digest pool_one (transfer 5 7 1) ample)) alice) \<and>
   size_pool (snd (add_transaction example_digest pool_one (transfer 5 7 1) ample)) = 2 \<and>
   fst (add_transaction example_digest pool_one (transfer 6 0 2000000000) ample) \<in>
     {Replaced, Underpriced}"
proof -
  have h: "map_of (by_hash pool_one) (hash example_digest (transfer 5 7 1)) = None \<and>
           tx_value (transfer 5 7 1) + tx_gas_limit (transfer 5 7 1) * max_fee_per_gas (transfer 5 7 1)
             \<le> ample \<and>
           length (by_hash pool_one) < max_size pool_one"
    by code_simp
  have s: "slot_of pool_one (transfer 5 7 1) = None"
    by code_simp
  have h': "map_of (by_hash pool_one) (hash example_digest (transfer 6 0 2000000000)) = None \<and>
           tx_value (transfer 6 0 2000000000) +
             tx_gas_limit (transfer 6 0 2000000000) * max_fee_per_gas (transfer 6 0 2000000000)
             \<le> ample \<and>
           length (by_hash pool_one) < max_size pool_one"
    by code_simp
  have s': "slot_of pool_one (transfer 6 0 2000000000) \<noteq> None"
    by code_simp
  have n: "size_pool pool_one = 1"
    by code_simp
  have f: "tx_from (transfer 5 7 1) = alice"
    by (simp add: transfer_def)
  show ?thesis
    using add_transaction_no_nonce_check [of example_digest pool_one "transfer 5 7 1" ample]
      add_transaction_no_nonce_check [of example_digest pool_one "transfer 6 0 2000000000" ample]
      h s h' s' n f
    by simp
qed

text \<open>
  Against C10 as stated: a transaction with a new hash (it differs from the pooled one in
  its value) that passes the balance and capacity checks is not admitted when it has the
  sender and nonce of the pooled transaction and no higher fee; it is \<open>Underpriced\<close>.
\<close>

theorem same_nonce_not_admitted_counterexample:
  "map_of (by_hash pool_one) (hash example_digest (transfer 6 0 1000000000)) = None \<and>
   tx_value (transfer 6 0 1000000000) +
     tx_gas_limit (transfer 6 0 1000000000) * max_fee_per_gas (transfer 6 0 1000000000) \<le> ample \<and>
   length (by_hash pool_one) < max_size pool_one \<and>
   fst (add_transaction example_digest pool_one (transfer 6 0 1000000000) ample) = Underpriced"
  by code_simp

section \<open>The mempool: selection\<close>

text \<open>
  What the selection loop returns is pooled, priced at or above the base fee and, without
  wrap-around, within the block gas limit.
\<close>

lemma word_gas_step:
  fixes used g gl :: u64
  assumes "used < gl" "\<not> gl < used + g" "unat gl + unat g < 2 ^ 64"
  shows "unat (used + g) = unat used + unat g \<and> unat (used + g) \<le> unat gl"
proof -
  from assms(1) have "unat used < unat gl" by (simp add: word_less_nat_alt)
  with assms(3) have "unat used + unat g < 2 ^ LENGTH(64)" by simp
  then have eq: "unat (used + g) = unat used + unat g"
    by (simp only: unat_add_lem)
  from assms(2) have "used + g \<le> gl" by simp
  then have "unat (used + g) \<le> unat gl" by (simp add: word_le_nat_alt)
  with eq show ?thesis by simp
qed

lemma select_loop_members:
  "select_loop bh gl bf q result selected used = (res, q') \<Longrightarrow>
   tx \<in> set res \<Longrightarrow>
   tx \<in> set result \<or> (tx \<in> snd ` set bh \<and> bf \<le> effective_gas_price tx bf)"
proof (induction bh gl bf q result selected used rule: select_loop.induct)
  case (1 bh gl bf result selected used)
  then show ?case by simp
next
  case (2 bh gl bf top_entry q result selected used)
  show ?case
  proof (cases "used < gl")
    case False
    with "2.prems" show ?thesis by simp
  next
    case True
    show ?thesis
    proof (cases "prio_hash top_entry \<in> set selected")
      case sel: True
      with True "2.prems" "2.IH"(1) show ?thesis by simp
    next
      case nsel: False
      show ?thesis
      proof (cases "map_of bh (prio_hash top_entry)")
        case None
        with True nsel "2.prems" "2.IH"(2) show ?thesis by simp
      next
        case (Some t)
        then have mem: "t \<in> snd ` set bh"
          by (metis map_of_SomeD image_eqI snd_conv)
        show ?thesis
        proof (cases "used + tx_gas_limit t > gl")
          case big: True
          with True nsel Some "2.prems" "2.IH"(3) show ?thesis by simp
        next
          case fits: False
          show ?thesis
          proof (cases "effective_gas_price t bf < bf")
            case cheap: True
            with True nsel Some fits "2.prems" "2.IH"(4) show ?thesis by simp
          next
            case ok: False
            with True nsel Some fits "2.prems" "2.IH"(5) [of "prio_hash top_entry" t]
            have "tx \<in> set (result @ [t]) \<or>
                  (tx \<in> snd ` set bh \<and> bf \<le> effective_gas_price tx bf)"
              by simp
            with mem ok show ?thesis by auto
          qed
        qed
      qed
    qed
  qed
qed

lemma select_loop_gas:
  "select_loop bh gl bf q result selected used = (res, q') \<Longrightarrow>
   \<forall>t \<in> snd ` set bh. unat gl + unat (tx_gas_limit t) < 2 ^ 64 \<Longrightarrow>
   sum_list (map (\<lambda>t. unat (tx_gas_limit t)) result) = unat used \<Longrightarrow>
   unat used \<le> unat gl \<Longrightarrow>
   sum_list (map (\<lambda>t. unat (tx_gas_limit t)) res) \<le> unat gl"
proof (induction bh gl bf q result selected used rule: select_loop.induct)
  case (1 bh gl bf result selected used)
  then show ?case by simp
next
  case (2 bh gl bf top_entry q result selected used)
  note prems = "2.prems"
  show ?case
  proof (cases "used < gl")
    case False
    with prems show ?thesis by simp
  next
    case True
    show ?thesis
    proof (cases "prio_hash top_entry \<in> set selected")
      case sel: True
      with True prems "2.IH"(1) show ?thesis by simp
    next
      case nsel: False
      show ?thesis
      proof (cases "map_of bh (prio_hash top_entry)")
        case None
        with True nsel prems "2.IH"(2) show ?thesis by simp
      next
        case (Some t)
        then have mem: "t \<in> snd ` set bh"
          by (metis map_of_SomeD image_eqI snd_conv)
        show ?thesis
        proof (cases "used + tx_gas_limit t > gl")
          case big: True
          with True nsel Some prems "2.IH"(3) show ?thesis by simp
        next
          case fits: False
          show ?thesis
          proof (cases "effective_gas_price t bf < bf")
            case cheap: True
            with True nsel Some fits prems "2.IH"(4) show ?thesis by simp
          next
            case ok: False
            from mem prems(2) have "unat gl + unat (tx_gas_limit t) < 2 ^ 64" by blast
            from word_gas_step [OF True fits this]
            have st: "unat (used + tx_gas_limit t) = unat used + unat (tx_gas_limit t)"
              "unat (used + tx_gas_limit t) \<le> unat gl" by simp_all
            have "select_loop bh gl bf q (result @ [t]) (prio_hash top_entry # selected)
                    (used + tx_gas_limit t) = (res, q')"
              using True nsel Some fits ok prems(1) by simp
            moreover have "sum_list (map (\<lambda>t. unat (tx_gas_limit t)) (result @ [t])) =
                           unat (used + tx_gas_limit t)"
              using prems(3) st(1) by simp
            ultimately show ?thesis
              using "2.IH"(5) [of "prio_hash top_entry" t] True nsel Some fits ok prems(2) st(2)
              by simp
          qed
        qed
      qed
    qed
  qed
qed

text \<open>
  The rebuilt queue holds one entry for every entry that the iteration visits, and when all
  pooled gas limits together stay below the block gas limit the loop takes every entry
  whose price is high enough.
\<close>

lemma mset_pq_push [simp]: "mset (pq_push e q) = add_mset e (mset q)"
  by (induction q) simp_all

lemma mset_foldl_pq_push:
  "mset (foldl (\<lambda>q x. pq_push (f x) q) q0 xs) = mset q0 + image_mset f (mset xs)"
  by (induction xs arbitrary: q0) simp_all

lemma mset_rebuild_priority_queue:
  "mset (priority_queue (rebuild_priority_queue iteration m bf)) =
     image_mset (\<lambda>x. \<lparr>prio_hash = take 32 (fst x),
                       effective_price = effective_gas_price (snd x) bf\<rparr>)
       (mset (iteration (by_hash m)))"
  using mset_foldl_pq_push
    [of "\<lambda>x. \<lparr>prio_hash = take 32 (fst x), effective_price = effective_gas_price (snd x) bf\<rparr>"
        "[]" "iteration (by_hash m)"]
  by (simp add: rebuild_priority_queue_def split_def)

lemma select_loop_complete:
  "\<forall>e \<in> set q. map_of bh (prio_hash e) \<noteq> None \<Longrightarrow>
   distinct (map prio_hash q) \<Longrightarrow>
   prio_hash ` set q \<inter> set selected = {} \<Longrightarrow>
   unat used + sum_list (map (\<lambda>e. unat (tx_gas_limit (the (map_of bh (prio_hash e))))) q)
     < unat gl \<Longrightarrow>
   set (fst (select_loop bh gl bf q result selected used)) =
     set result \<union>
     {tx. \<exists>e \<in> set q. map_of bh (prio_hash e) = Some tx \<and> bf \<le> effective_gas_price tx bf}"
proof (induction q arbitrary: result selected used)
  case Nil
  then show ?case by simp
next
  case (Cons e q)
  from Cons.prems(1) obtain t where t: "map_of bh (prio_hash e) = Some t" by auto
  let ?g = "tx_gas_limit t"
  let ?rest = "sum_list (map (\<lambda>e. unat (tx_gas_limit (the (map_of bh (prio_hash e))))) q)"
  from Cons.prems(4) t have room: "unat used + unat ?g + ?rest < unat gl" by simp
  then have lt: "used < gl" by (simp add: word_less_nat_alt)
  have "unat gl < 2 ^ LENGTH(64)" by (rule unsigned_less)
  with room have "unat used + unat ?g < 2 ^ LENGTH(64)" by simp
  then have ua: "unat (used + ?g) = unat used + unat ?g" by (simp only: unat_add_lem)
  with room have fits: "\<not> gl < used + ?g" by (simp add: word_less_nat_alt)
  from Cons.prems(3) have nsel: "prio_hash e \<notin> set selected" by auto
  have all: "\<forall>e \<in> set q. map_of bh (prio_hash e) \<noteq> None" using Cons.prems(1) by simp
  have dq: "distinct (map prio_hash q)" using Cons.prems(2) by simp
  show ?case
  proof (cases "effective_gas_price t bf < bf")
    case True
    have room': "unat used + ?rest < unat gl" using room by simp
    have dis: "prio_hash ` set q \<inter> set selected = {}" using Cons.prems(3) by auto
    have step: "select_loop bh gl bf (e # q) result selected used =
                select_loop bh gl bf q result selected used"
      using lt nsel t fits True by simp
    have "{tx. \<exists>e' \<in> set (e # q). map_of bh (prio_hash e') = Some tx \<and>
                bf \<le> effective_gas_price tx bf} =
          {tx. \<exists>e' \<in> set q. map_of bh (prio_hash e') = Some tx \<and>
                bf \<le> effective_gas_price tx bf}"
      using t True by auto
    with Cons.IH [OF all dq dis room', of result] step show ?thesis by simp
  next
    case False
    have room': "unat (used + ?g) + ?rest < unat gl" using room ua by simp
    have dis: "prio_hash ` set q \<inter> set (prio_hash e # selected) = {}"
      using Cons.prems(2, 3) by auto
    have step: "select_loop bh gl bf (e # q) result selected used =
                select_loop bh gl bf q (result @ [t]) (prio_hash e # selected) (used + ?g)"
      using lt nsel t fits False by simp
    have "{tx. \<exists>e' \<in> set (e # q). map_of bh (prio_hash e') = Some tx \<and>
                bf \<le> effective_gas_price tx bf} =
          insert t {tx. \<exists>e' \<in> set q. map_of bh (prio_hash e') = Some tx \<and>
                bf \<le> effective_gas_price tx bf}"
      using t False by auto
    with Cons.IH [OF all dq dis room', of "result @ [t]"] step show ?thesis by simp
  qed
qed

lemma fst_get_block_transactions:
  "fst (get_block_transactions iteration m gl bf) =
     fst (select_loop (by_hash m) gl bf
            (priority_queue (rebuild_priority_queue iteration m bf)) [] [] 0)"
proof -
  have "by_hash (rebuild_priority_queue iteration m bf) = by_hash m"
    by (simp add: rebuild_priority_queue_def)
  then show ?thesis
    by (cases "select_loop (by_hash m) gl bf
                 (priority_queue (rebuild_priority_queue iteration m bf)) [] [] 0")
      (simp add: get_block_transactions_def Let_def)
qed

lemma get_block_transactions_complete:
  assumes perm: "mset (iteration (by_hash m)) = mset (by_hash m)"
    and dist: "distinct (map fst (by_hash m))"
    and keys: "\<forall>h \<in> fst ` set (by_hash m). length h = 32"
    and room: "sum_list (map (\<lambda>x. unat (tx_gas_limit (snd x))) (by_hash m)) < unat gl"
  shows "set (fst (get_block_transactions iteration m gl bf)) =
           {tx \<in> snd ` set (by_hash m). bf \<le> effective_gas_price tx bf}"
proof -
  let ?bh = "by_hash m"
  let ?E = "\<lambda>x. \<lparr>prio_hash = take 32 (fst x), effective_price = effective_gas_price (snd x) bf\<rparr>"
  let ?m1 = "rebuild_priority_queue iteration m bf"
  let ?q = "priority_queue ?m1"
  have bh: "by_hash ?m1 = ?bh" by (simp add: rebuild_priority_queue_def)
  have mq: "mset ?q = image_mset ?E (mset ?bh)"
    by (simp add: mset_rebuild_priority_queue perm)
  have key: "take 32 (fst x) = fst x" if "x \<in> set ?bh" for x
    using keys that by simp
  have look: "map_of ?bh (fst x) = Some (snd x)" if "x \<in> set ?bh" for x
    using dist that by (cases x) simp
  have "set_mset (mset ?q) = set_mset (image_mset ?E (mset ?bh))"
    by (simp only: mq)
  then have sq: "set ?q = ?E ` set ?bh" by simp
  have ph: "map_of ?bh (prio_hash e) = Some (snd x)" if "x \<in> set ?bh" "e = ?E x" for e x
    using that key look by simp
  have all: "\<forall>e \<in> set ?q. map_of ?bh (prio_hash e) \<noteq> None"
    using sq ph by auto
  have "mset (map prio_hash ?q) = image_mset prio_hash (mset ?q)" by simp
  also have "\<dots> = image_mset prio_hash (image_mset ?E (mset ?bh))" by (simp only: mq)
  also have "\<dots> = image_mset (\<lambda>x. take 32 (fst x)) (mset ?bh)"
    by (simp add: image_mset.compositionality comp_def)
  also have "\<dots> = image_mset fst (mset ?bh)"
    by (rule image_mset_cong) (simp add: key)
  finally have "mset (map prio_hash ?q) = mset (map fst ?bh)" by simp
  from mset_eq_imp_distinct_iff [OF this] dist have dq: "distinct (map prio_hash ?q)"
    by simp
  have "sum_list (map (\<lambda>e. unat (tx_gas_limit (the (map_of ?bh (prio_hash e))))) ?q) =
        sum_mset (image_mset (\<lambda>e. unat (tx_gas_limit (the (map_of ?bh (prio_hash e))))) (mset ?q))"
    by (simp flip: sum_mset_sum_list)
  also have "\<dots> = sum_mset (image_mset (\<lambda>e. unat (tx_gas_limit (the (map_of ?bh (prio_hash e)))))
                     (image_mset ?E (mset ?bh)))"
    by (simp only: mq)
  also have "\<dots> = sum_mset (image_mset
                     (\<lambda>x. unat (tx_gas_limit (the (map_of ?bh (prio_hash (?E x)))))) (mset ?bh))"
    by (simp add: image_mset.compositionality comp_def)
  also have "\<dots> = sum_mset (image_mset (\<lambda>x. unat (tx_gas_limit (snd x))) (mset ?bh))"
    by (rule arg_cong [where f = sum_mset], rule image_mset_cong) (simp add: key look)
  also have "\<dots> = sum_list (map (\<lambda>x. unat (tx_gas_limit (snd x))) ?bh)"
    by (simp flip: sum_mset_sum_list)
  finally have gas: "unat (0 :: u64) +
      sum_list (map (\<lambda>e. unat (tx_gas_limit (the (map_of ?bh (prio_hash e))))) ?q) < unat gl"
    using room by simp
  have "set (fst (select_loop ?bh gl bf ?q [] [] 0)) =
          set [] \<union> {tx. \<exists>e \<in> set ?q. map_of ?bh (prio_hash e) = Some tx \<and>
                           bf \<le> effective_gas_price tx bf}"
    by (rule select_loop_complete [OF all dq _ gas]) simp
  also have "\<dots> = {tx \<in> snd ` set ?bh. bf \<le> effective_gas_price tx bf}"
    using sq ph by (auto simp: image_iff)
  finally show ?thesis
    by (simp only: fst_get_block_transactions)
qed

text \<open>
  The parameter loses no behaviour of the queue: when the entries are visited in an order
  that is already non-increasing in price, as every sequence of pops is, the rebuilt queue
  is that very sequence.
\<close>

lemma pq_push_behind:
  "\<forall>x \<in> set q. effective_price e \<le> effective_price x \<Longrightarrow> pq_push e q = q @ [e]"
  by (induction q) (auto simp: not_less [symmetric])

lemma foldl_pq_push_sorted:
  "sorted_wrt (\<lambda>a b. effective_price b \<le> effective_price a) (q0 @ map f xs) \<Longrightarrow>
   foldl (\<lambda>q x. pq_push (f x) q) q0 xs = q0 @ map f xs"
proof (induction xs arbitrary: q0)
  case Nil
  then show ?case by simp
next
  case (Cons x xs)
  from Cons.prems have "\<forall>y \<in> set q0. effective_price (f x) \<le> effective_price y"
    by (auto simp: sorted_wrt_append)
  then have push: "pq_push (f x) q0 = q0 @ [f x]" by (rule pq_push_behind)
  from Cons.prems have "sorted_wrt (\<lambda>a b. effective_price b \<le> effective_price a)
                          ((q0 @ [f x]) @ map f xs)"
    by simp
  from Cons.IH [OF this] push show ?case by simp
qed

lemma rebuild_keeps_pop_order:
  assumes "sorted_wrt (\<lambda>a b. effective_gas_price (snd b) bf \<le> effective_gas_price (snd a) bf)
             (iteration (by_hash m))"
  shows "priority_queue (rebuild_priority_queue iteration m bf) =
           map (\<lambda>x. \<lparr>prio_hash = take 32 (fst x),
                      effective_price = effective_gas_price (snd x) bf\<rparr>)
             (iteration (by_hash m))"
proof -
  let ?E = "\<lambda>x. \<lparr>prio_hash = take 32 (fst x), effective_price = effective_gas_price (snd x) bf\<rparr>"
  from assms have "sorted_wrt (\<lambda>a b. effective_price b \<le> effective_price a)
                     ([] @ map ?E (iteration (by_hash m)))"
    by (simp add: sorted_wrt_map)
  from foldl_pq_push_sorted [OF this] show ?thesis
    by (simp add: rebuild_priority_queue_def split_def)
qed

text \<open>
  C6 (as amended). Every transaction returned by \<open>get_block_transactions\<close> is a pooled
  transaction whose effective price at the base fee is at least the base fee; and when the
  block gas limit plus the gas limit of any pooled transaction stays below \<open>2\<^sup>6\<^sup>4\<close>, the
  gas limits of the returned transactions sum to at most the block gas limit. Nonces are
  not consulted: the per-sender index with its nonces and pending nonce has no influence
  on the result, and when the gas limits of all pooled transactions together stay below
  the block gas limit, the transactions returned are exactly the pooled transactions whose
  effective price is at least the base fee, whatever their nonces. The first three parts
  hold for every order of iteration, the last for every permutation of the pool (its keys
  being distinct 32-byte hashes).
\<close>

theorem get_block_transactions_selected:
  "(\<forall>tx \<in> set (fst (get_block_transactions iteration m gl bf)).
      tx \<in> snd ` set (by_hash m) \<and> bf \<le> effective_gas_price tx bf) \<and>
   ((\<forall>tx \<in> snd ` set (by_hash m). unat gl + unat (tx_gas_limit tx) < 2 ^ 64) \<longrightarrow>
      sum_list (map (\<lambda>tx. unat (tx_gas_limit tx))
        (fst (get_block_transactions iteration m gl bf))) \<le> unat gl) \<and>
   fst (get_block_transactions iteration (m\<lparr>by_sender := senders\<rparr>) gl bf) =
     fst (get_block_transactions iteration m gl bf) \<and>
   (mset (iteration (by_hash m)) = mset (by_hash m) \<and>
    distinct (map fst (by_hash m)) \<and> (\<forall>h \<in> fst ` set (by_hash m). length h = 32) \<and>
    sum_list (map (\<lambda>x. unat (tx_gas_limit (snd x))) (by_hash m)) < unat gl \<longrightarrow>
      set (fst (get_block_transactions iteration m gl bf)) =
        {tx \<in> snd ` set (by_hash m). bf \<le> effective_gas_price tx bf})"
proof -
  let ?q = "priority_queue (rebuild_priority_queue iteration m bf)"
  obtain res q' where sl: "select_loop (by_hash m) gl bf ?q [] [] 0 = (res, q')"
    by (cases "select_loop (by_hash m) gl bf ?q [] [] 0")
  have res: "fst (get_block_transactions iteration m gl bf) = res"
    by (simp add: fst_get_block_transactions sl)
  have a: "\<forall>tx \<in> set res. tx \<in> snd ` set (by_hash m) \<and> bf \<le> effective_gas_price tx bf"
    using select_loop_members [OF sl] by auto
  have b: "(\<forall>tx \<in> snd ` set (by_hash m). unat gl + unat (tx_gas_limit tx) < 2 ^ 64) \<longrightarrow>
      sum_list (map (\<lambda>tx. unat (tx_gas_limit tx)) res) \<le> unat gl"
    using select_loop_gas [OF sl] by simp
  have c: "fst (get_block_transactions iteration (m\<lparr>by_sender := senders\<rparr>) gl bf) =
             fst (get_block_transactions iteration m gl bf)"
    by (simp add: fst_get_block_transactions rebuild_priority_queue_def)
  have d: "mset (iteration (by_hash m)) = mset (by_hash m) \<and>
    distinct (map fst (by_hash m)) \<and> (\<forall>h \<in> fst ` set (by_hash m). length h = 32) \<and>
    sum_list (map (\<lambda>x. unat (tx_gas_limit (snd x))) (by_hash m)) < unat gl \<longrightarrow>
      set (fst (get_block_transactions iteration m gl bf)) =
        {tx \<in> snd ` set (by_hash m). bf \<le> effective_gas_price tx bf}"
    using get_block_transactions_complete [of iteration m gl bf] by blast
  from a b c d show ?thesis by (simp only: res)
qed

lemma pool_gap_by_hash:
  "by_hash pool_gap =
     [(hash example_digest (transfer 5 0 7), transfer 5 0 7),
      (hash example_digest (transfer 5 2 7), transfer 5 2 7)]"
  by code_simp

lemma pool_gap_keys:
  "hash example_digest (transfer 5 0 7) \<noteq> hash example_digest (transfer 5 2 7)"
  by code_simp

lemma length_hash_example [simp]: "length (hash example_digest tx) = 32"
  by (simp add: hash_def)

lemma transfer_price [simp]: "effective_gas_price (transfer v n f) bf = (if f < bf then f else bf)"
  by (simp add: effective_gas_price_def transfer_def Let_def)

theorem get_block_transactions_selected_witness:
  "set (fst (get_block_transactions rev pool_gap 30000000 7)) = {transfer 5 0 7, transfer 5 2 7} \<and>
   sum_list (map (\<lambda>tx. unat (tx_gas_limit tx))
     (fst (get_block_transactions rev pool_gap 30000000 7))) \<le> unat (30000000 :: u64)"
proof -
  have pooled: "snd ` set (by_hash pool_gap) = {transfer 5 0 7, transfer 5 2 7}"
    by (simp add: pool_gap_by_hash)
  have no_wrap: "\<forall>tx \<in> snd ` set (by_hash pool_gap).
                   unat (30000000 :: u64) + unat (tx_gas_limit tx) < 2 ^ 64"
    by (simp add: pooled transfer_def)
  have room: "mset (rev (by_hash pool_gap)) = mset (by_hash pool_gap) \<and>
    distinct (map fst (by_hash pool_gap)) \<and>
    (\<forall>h \<in> fst ` set (by_hash pool_gap). length h = 32) \<and>
    sum_list (map (\<lambda>x. unat (tx_gas_limit (snd x))) (by_hash pool_gap)) < unat (30000000 :: u64)"
    using pool_gap_keys by (simp add: pool_gap_by_hash transfer_def)
  have priced: "{tx \<in> snd ` set (by_hash pool_gap). 7 \<le> effective_gas_price tx 7} =
                {transfer 5 0 7, transfer 5 2 7}"
    by (auto simp: pooled)
  show ?thesis
    using get_block_transactions_selected [of rev pool_gap 30000000 7] no_wrap room priced
    by simp
qed

text \<open>
  Against C6 as stated. With transfers of alice at nonces 0 and 2 pooled and nothing at
  nonce 1, the selection returns both, in whichever of the two orders the pool is
  iterated. And with a transaction of gas limit 5 and one of gas limit \<open>2\<^sup>6\<^sup>4 - 1\<close>
  pooled, a block gas limit of 10 selects both, because the 64-bit sum of their gas limits
  wraps around to 4.
\<close>

theorem select_ignores_nonce_gap_counterexample:
  "set (map tx_nonce (fst (get_block_transactions id pool_gap 30000000 7))) = {0, 2} \<and>
   set (map tx_nonce (fst (get_block_transactions rev pool_gap 30000000 7))) = {0, 2} \<and>
   set (map tx_nonce (get_pending_for pool_gap alice)) = {0, 2} \<and>
   fst (get_block_transactions id pool_wrap 10 0) = [small_tx, huge_tx] \<and>
   fst (get_block_transactions rev pool_wrap 10 0) = [small_tx, huge_tx] \<and>
   unat (tx_gas_limit small_tx) + unat (tx_gas_limit huge_tx) > unat (10 :: u64)"
proof -
  have "fst (get_block_transactions id pool_gap 30000000 7) = [transfer 5 0 7, transfer 5 2 7]"
    by code_simp
  moreover
  have "fst (get_block_transactions rev pool_gap 30000000 7) = [transfer 5 2 7, transfer 5 0 7]"
    by code_simp
  moreover have "get_pending_for pool_gap alice = [transfer 5 0 7, transfer 5 2 7]"
    by code_simp
  moreover have "fst (get_block_transactions id pool_wrap 10 0) = [small_tx, huge_tx]"
    by code_simp
  moreover have "fst (get_block_transactions rev pool_wrap 10 0) = [small_tx, huge_tx]"
    by code_simp
  ultimately show ?thesis
    by (simp add: small_tx_def huge_tx_def) auto
qed

section \<open>Leader selection\<close>

text \<open>
  The code's walk over the stored active set is the reference walk as long as the stakes add
  up to less than \<open>2\<^sup>6\<^sup>4\<close>.
\<close>

lemma stake_sum_simps [simp]:
  "stake_sum [] = 0" "stake_sum (q # qs) = unat (stake q) + stake_sum qs"
  by (simp_all add: stake_sum_def)

lemma foldl_stake: "foldl (\<lambda>t q. t + stake q) c qs = c + of_nat (stake_sum qs)"
  by (induction qs arbitrary: c) (simp_all add: add.assoc)

lemma leader_walk_first_exceeding:
  "running + stake_sum qs < 2 ^ 64 \<Longrightarrow> unat c = running \<Longrightarrow>
   leader_walk qs ss c = first_exceeding qs (unat ss) running"
proof (induction qs arbitrary: c running)
  case Nil
  then show ?case by simp
next
  case (Cons q qs)
  from Cons.prems have "unat c + unat (stake q) < 2 ^ LENGTH(64)" by simp
  then have "unat (c + stake q) = unat c + unat (stake q)"
    by (rule unat_add_lem [THEN iffD1])
  then have u: "unat (c + stake q) = running + unat (stake q)"
    using Cons.prems(2) by simp
  have "running + unat (stake q) + stake_sum qs < 2 ^ 64"
    using Cons.prems(1) by simp
  from Cons.IH [OF this u] u show ?case
    by (simp add: Let_def word_less_nat_alt)
qed

lemma first_exceeding_Some:
  "running \<le> r \<Longrightarrow> r < running + stake_sum qs \<Longrightarrow>
   \<exists>a. first_exceeding qs r running = Some a"
  by (induction qs arbitrary: running) (auto simp: Let_def add.assoc)

lemma first_exceeding_mem:
  "first_exceeding qs r running = Some a \<Longrightarrow> a \<in> seq_address ` set qs"
  by (induction qs arbitrary: running) (auto simp: Let_def split: if_splits)

lemma first_exceeding_shift:
  "first_exceeding qs (r + k) (k + running) = first_exceeding qs r running"
  by (induction qs arbitrary: running) (simp_all add: Let_def add.assoc)

lemma leader_is_walk:
  assumes ne: "active_set e \<noteq> []"
    and pos: "0 < stake_sum (active_set e)"
    and small: "stake_sum (active_set e) < 2 ^ 64"
  shows "Some (get_leader_for_slot e s) =
           first_exceeding (active_set e) (unat s mod stake_sum (active_set e)) 0"
proof -
  let ?T = "stake_sum (active_set e)"
  have tw: "foldl (\<lambda>t q. t + stake q) 0 (active_set e) = (of_nat ?T :: u64)"
    by (simp add: foldl_stake)
  have ut: "unat (of_nat ?T :: u64) = ?T"
    using small by (simp add: unat_of_nat)
  then have "(of_nat ?T :: u64) \<noteq> 0" using pos by (metis unat_0 less_numeral_extra(3))
  then have gt: "(of_nat ?T :: u64) > 0" by (simp add: word_greater_zero_iff)
  have tas: "total_active_stake e = of_nat ?T"
    using gt by (simp add: total_active_stake_def tw Let_def)
  have um: "unat (s mod (of_nat ?T :: u64)) = unat s mod ?T"
    by (simp add: unat_mod ut)
  have lw: "leader_walk (active_set e) (s mod of_nat ?T) 0 =
            first_exceeding (active_set e) (unat s mod ?T) 0"
    using leader_walk_first_exceeding [of 0 "active_set e" 0 "s mod of_nat ?T"] small
    by (simp add: um)
  have "unat s mod ?T < 0 + ?T" using pos by simp
  from first_exceeding_Some [OF _ this] obtain a where
    a: "first_exceeding (active_set e) (unat s mod ?T) 0 = Some a" by blast
  have "get_leader_for_slot e s = a"
    unfolding get_leader_for_slot_def tas
    using ne a lw by (cases "active_set e") (simp_all add: Let_def)
  with a show ?thesis by simp
qed


lemma walk_count:
  "distinct (map seq_address qs) \<Longrightarrow> q \<in> set qs \<Longrightarrow>
   card {r. r < stake_sum qs \<and> first_exceeding qs r 0 = Some (seq_address q)} = unat (stake q)"
proof (induction qs)
  case Nil
  then show ?case by simp
next
  case (Cons x xs)
  let ?w = "unat (stake x)"
  let ?S = "stake_sum xs"
  have late: "first_exceeding (x # xs) r 0 = first_exceeding xs (r - ?w) 0" if "?w \<le> r" for r
  proof -
    from that have "first_exceeding (x # xs) r 0 = first_exceeding xs ((r - ?w) + ?w) (?w + 0)"
      by (simp add: Let_def)
    then show ?thesis by (simp only: first_exceeding_shift)
  qed
  have early: "first_exceeding (x # xs) r 0 = Some (seq_address x)" if "r < ?w" for r
    using that by (simp add: Let_def)
  show ?case
  proof (cases "q = x")
    case True
    have "{r. r < stake_sum (x # xs) \<and> first_exceeding (x # xs) r 0 = Some (seq_address q)} =
          {r. r < ?w}"
    proof (intro set_eqI iffI)
      fix r
      assume "r \<in> {r. r < stake_sum (x # xs) \<and>
                       first_exceeding (x # xs) r 0 = Some (seq_address q)}"
      then have f: "first_exceeding (x # xs) r 0 = Some (seq_address q)" by simp
      have "r < ?w"
      proof (rule ccontr)
        assume "\<not> r < ?w"
        then have "first_exceeding xs (r - ?w) 0 = Some (seq_address x)"
          using f late [of r] True by simp
        then have "seq_address x \<in> seq_address ` set xs" by (rule first_exceeding_mem)
        with Cons.prems(1) show False by simp
      qed
      then show "r \<in> {r. r < ?w}" by simp
    next
      fix r
      assume "r \<in> {r. r < ?w}"
      then have "r < ?w" by simp
      then show "r \<in> {r. r < stake_sum (x # xs) \<and>
                            first_exceeding (x # xs) r 0 = Some (seq_address q)}"
        using early [of r] True by simp
    qed
    then show ?thesis using True by simp
  next
    case False
    with Cons.prems have qin: "q \<in> set xs" and d: "distinct (map seq_address xs)"
      and ne: "seq_address q \<noteq> seq_address x"
      by (auto simp: image_iff)
    let ?A = "{r'. r' < ?S \<and> first_exceeding xs r' 0 = Some (seq_address q)}"
    have "{r. r < stake_sum (x # xs) \<and> first_exceeding (x # xs) r 0 = Some (seq_address q)} =
          (\<lambda>r'. r' + ?w) ` ?A"
    proof (intro set_eqI iffI)
      fix r
      assume "r \<in> {r. r < stake_sum (x # xs) \<and>
                       first_exceeding (x # xs) r 0 = Some (seq_address q)}"
      then have r: "r < ?w + ?S" and f: "first_exceeding (x # xs) r 0 = Some (seq_address q)"
        by simp_all
      have ge: "?w \<le> r"
      proof (rule ccontr)
        assume "\<not> ?w \<le> r"
        then have "first_exceeding (x # xs) r 0 = Some (seq_address x)"
          using early [of r] by simp
        with f ne show False by simp
      qed
      with f late [of r] have "first_exceeding xs (r - ?w) 0 = Some (seq_address q)" by simp
      moreover from ge r have "r - ?w < ?S" by simp
      ultimately have "r - ?w \<in> ?A" by simp
      moreover from ge have "r = (r - ?w) + ?w" by simp
      ultimately show "r \<in> (\<lambda>r'. r' + ?w) ` ?A" by (rule rev_image_eqI)
    next
      fix r
      assume "r \<in> (\<lambda>r'. r' + ?w) ` ?A"
      then obtain r' where r': "r = r' + ?w" "r' < ?S"
        "first_exceeding xs r' 0 = Some (seq_address q)" by auto
      then have "first_exceeding (x # xs) r 0 = Some (seq_address q)"
        using late [of r] by simp
      with r' show "r \<in> {r. r < stake_sum (x # xs) \<and>
                            first_exceeding (x # xs) r 0 = Some (seq_address q)}"
        by simp
    qed
    moreover have "card ((\<lambda>r'. r' + ?w) ` ?A) = card ?A"
      by (rule card_image) (simp add: inj_on_def)
    ultimately show ?thesis using Cons.IH [OF d qin] by simp
  qed
qed

lemma leader_share:
  assumes ne: "active_set e \<noteq> []"
    and pos: "0 < stake_sum (active_set e)"
    and small: "stake_sum (active_set e) < 2 ^ 64"
    and d: "distinct (map seq_address (active_set e))"
    and q: "q \<in> set (active_set e)"
  shows "card {r. r < stake_sum (active_set e) \<and>
                  get_leader_for_slot e (of_nat r) = seq_address q} = unat (stake q)"
proof -
  let ?T = "stake_sum (active_set e)"
  have "get_leader_for_slot e (of_nat r) = seq_address q \<longleftrightarrow>
        first_exceeding (active_set e) r 0 = Some (seq_address q)" if "r < ?T" for r
  proof -
    from that small have "unat (of_nat r :: u64) = r" by (simp add: unat_of_nat)
    with leader_is_walk [OF ne pos small, of "of_nat r"] that show ?thesis by auto
  qed
  then have "{r. r < ?T \<and> get_leader_for_slot e (of_nat r) = seq_address q} =
             {r. r < ?T \<and> first_exceeding (active_set e) r 0 = Some (seq_address q)}"
    by blast
  with walk_count [OF d q] show ?thesis by simp
qed

lemma set_insert_by_stake: "set (insert_by_stake s xs) = insert s (set xs)"
  by (induction xs) auto

lemma sorted_insert_by_stake:
  "sorted_wrt (\<lambda>a b. stake b \<le> stake a) xs \<Longrightarrow>
   sorted_wrt (\<lambda>a b. stake b \<le> stake a) (insert_by_stake s xs)"
  by (induction xs) (auto simp: set_insert_by_stake)

lemma sorted_foldl_insert:
  "sorted_wrt (\<lambda>a b. stake b \<le> stake a) acc \<Longrightarrow>
   sorted_wrt (\<lambda>a b. stake b \<le> stake a) (foldl (\<lambda>acc s. insert_by_stake s acc) acc xs)"
  by (induction xs arbitrary: acc) (simp_all add: sorted_insert_by_stake)

lemma update_active_set_sorted:
  "sorted_wrt (\<lambda>a b. stake b \<le> stake a) (active_set (update_active_set e))"
proof -
  have "sorted_wrt (\<lambda>a b. stake b \<le> stake a) (take n (sort_by_stake xs))" for n xs
    unfolding sort_by_stake_def by (rule sorted_wrt_take) (simp add: sorted_foldl_insert)
  then show ?thesis
    by (simp add: update_active_set_def Let_def sorted_wrt_map)
qed

text \<open>
  The two example engines, evaluated.
\<close>

lemma tie_active:
  "active_set engine_tie =
     [(staker bob 100000)\<lparr>status := Active\<rparr>, (staker alice 100000)\<lparr>status := Active\<rparr>]"
  by code_simp

lemma tie_order:
  "spec_order [(staker bob 100000)\<lparr>status := Active\<rparr>, (staker alice 100000)\<lparr>status := Active\<rparr>] =
     [(staker alice 100000)\<lparr>status := Active\<rparr>, (staker bob 100000)\<lparr>status := Active\<rparr>]"
  by code_simp

lemma wrap_active:
  "active_set engine_wrap =
     [(staker alice 0x8000000000000001)\<lparr>status := Active\<rparr>,
      (staker bob 0x8000000000000000)\<lparr>status := Active\<rparr>]"
  by code_simp

lemma wrap_order:
  "spec_order [(staker alice 0x8000000000000001)\<lparr>status := Active\<rparr>,
               (staker bob 0x8000000000000000)\<lparr>status := Active\<rparr>] =
     [(staker alice 0x8000000000000001)\<lparr>status := Active\<rparr>,
      (staker bob 0x8000000000000000)\<lparr>status := Active\<rparr>]"
  by code_simp

lemma staker_fields [simp]:
  "stake (staker a st) = st" "seq_address (staker a st) = a"
  by (simp_all add: staker_def)

lemma leaders_code:
  "get_leader_for_slot engine_tie 0 = bob"
  "get_leader_for_slot engine_wrap 0x8000000000000001 = alice"
  by code_simp+

text \<open>
  C8 (as amended). For a non-empty active set whose stakes add up to a positive total below
  \<open>2\<^sup>6\<^sup>4\<close>, the leader of every slot \<open>s\<close> is the first sequencer, walking the active set
  in its stored order and accumulating stake, whose running total exceeds \<open>s\<close> modulo the
  total stake; and when the addresses in the active set are distinct, each sequencer leads
  exactly as many of the slots \<open>0, ..., total - 1\<close> of a full cycle as its stake. The stored
  order left by \<open>update_active_set\<close> is descending in stake; nothing orders equal stakes by
  address.
\<close>

theorem leader_walks_stored_order:
  "(active_set e \<noteq> [] \<and> 0 < stake_sum (active_set e) \<and> stake_sum (active_set e) < 2 ^ 64 \<longrightarrow>
      Some (get_leader_for_slot e s) =
        first_exceeding (active_set e) (unat s mod stake_sum (active_set e)) 0 \<and>
      (distinct (map seq_address (active_set e)) \<and> q \<in> set (active_set e) \<longrightarrow>
         card {r. r < stake_sum (active_set e) \<and>
                  get_leader_for_slot e (of_nat r) = seq_address q} = unat (stake q))) \<and>
   sorted_wrt (\<lambda>a b. stake b \<le> stake a) (active_set (update_active_set e))"
  using leader_is_walk leader_share update_active_set_sorted by blast

theorem leader_walks_stored_order_witness:
  "get_leader_for_slot engine_tie 150000 = alice \<and>
   card {r. r < 200000 \<and> get_leader_for_slot engine_tie (of_nat r) = bob} = 100000"
proof -
  let ?q = "(staker bob 100000)\<lparr>status := Active\<rparr>"
  have ne: "alice \<noteq> bob" by code_simp
  have h1: "active_set engine_tie \<noteq> [] \<and> 0 < stake_sum (active_set engine_tie) \<and>
            stake_sum (active_set engine_tie) < 2 ^ 64"
    by (simp add: tie_active)
  have h2: "distinct (map seq_address (active_set engine_tie)) \<and> ?q \<in> set (active_set engine_tie)"
    using ne by (simp add: tie_active)
  have t: "stake_sum (active_set engine_tie) = 200000"
    by (simp add: tie_active)
  show ?thesis
    using leader_walks_stored_order [of engine_tie 150000 ?q] h1 h2
    by (simp add: t tie_active Let_def)
qed

text \<open>
  Against C8 as stated. With bob registered before alice and both at stake 100000, the
  code's leader of slot 0 is bob, while the reference definition, which breaks the tie by
  address (alice's bytes are smaller), gives alice. And with stakes \<open>2\<^sup>6\<^sup>3 + 1\<close> and
  \<open>2\<^sup>6\<^sup>3\<close>, the code's 64-bit total wraps to 1, so the code's leader of slot
  \<open>2\<^sup>6\<^sup>3 + 1\<close> is alice, while the reference definition gives bob.
\<close>

theorem leader_tie_break_counterexample:
  "active_set engine_tie \<noteq> [] \<and>
   get_leader_for_slot engine_tie 0 = bob \<and>
   spec_leader (active_set engine_tie) (unat (0 :: u64)) = Some alice \<and>
   active_set engine_wrap \<noteq> [] \<and>
   get_leader_for_slot engine_wrap 0x8000000000000001 = alice \<and>
   spec_leader (active_set engine_wrap) (unat (0x8000000000000001 :: u64)) = Some bob"
proof -
  have "spec_leader (active_set engine_tie) (unat (0 :: u64)) = Some alice"
    by (simp add: spec_leader_def tie_active tie_order stake_sum_def Let_def)
  moreover have "spec_leader (active_set engine_wrap) (unat (0x8000000000000001 :: u64)) = Some bob"
    by (simp add: spec_leader_def wrap_active wrap_order stake_sum_def Let_def)
  ultimately show ?thesis
    by (simp add: leaders_code tie_active wrap_active)
qed

end
